theory Spec2Isabelle
  imports Main "HOL-Library.Word" "HOL-Library.AList"
begin

unbundle bit_operations_syntax

section \<open>Errors of the modelled code\<close>

text \<open>
  Every way in which the modelled C++ stops without a result is a value of this type:
  \<open>std::invalid_argument\<close> thrown by the decoder, \<open>std::out_of_range\<close> thrown by
  \<open>unordered_map::at\<close>, \<open>circ::unreachable()\<close>, \<open>__builtin_abort()\<close>, a failed
  \<open>CHECK_EQ\<close>, an index beyond the end of a vector or string (undefined behaviour in
  C++, made explicit here), and a loop that never returns.
\<close>

datatype error =
    InvalidArgument string
  | OutOfRange
  | IndexBeyondEnd
  | Unreachable string
  | Abort string
  | CheckFailed
  | UnknownId
  | NoReturn

fun foldM :: "('a \<Rightarrow> 's \<Rightarrow> error + 's) \<Rightarrow> 'a list \<Rightarrow> 's \<Rightarrow> error + 's" where
  "foldM f [] s = Inr s"
| "foldM f (x # xs) s = (case f x s of Inl e \<Rightarrow> Inl e | Inr s' \<Rightarrow> foldM f xs s')"

fun mapM :: "('a \<Rightarrow> error + 'b) \<Rightarrow> 'a list \<Rightarrow> error + 'b list" where
  "mapM f [] = Inr []"
| "mapM f (x # xs) =
     (case f x of
        Inl e \<Rightarrow> Inl e
      | Inr y \<Rightarrow> (case mapM f xs of Inl e \<Rightarrow> Inl e | Inr ys \<Rightarrow> Inr (y # ys)))"

section \<open>Decoder synthesizer (DecoderPrinter)\<close>

subsection \<open>Tri-state bits\<close>

text \<open>
  The enum \<open>InputType\<close>: what a decode context requires of one bit of the encoding. Its
  three values are the cases of the switches of \<open>to_val\<close> and \<open>to_val_negated\<close>.
\<close>

datatype InputType = zero | one | ignore

definition to_val :: "InputType \<Rightarrow> 64 word" where
  "to_val ty = (case ty of zero \<Rightarrow> 0 | one \<Rightarrow> 1 | ignore \<Rightarrow> 1)"


definition ctoit :: "char \<Rightarrow> error + InputType" where
  "ctoit c =
     (if c = CHR ''0'' then Inr zero
      else if c = CHR ''1'' then Inr one
      else if c = CHR ''~'' then Inr ignore
      else Inl (Unreachable ''Converting invalid value to InputType''))"

text \<open>
  \<open>OptionalBitArray<N>\<close> is a \<open>std::array<InputType, N>\<close>: a list of \<open>N\<close> tri-state bits,
  index 0 first.
\<close>

type_synonym OptionalBitArray = "InputType list"

text \<open>
  Modelled from the spec: the members \<open>to_uint64\<close> and \<open>ignored_bits_to_uint64\<close> of
  \<open>OptionalBitArray\<close> live in the header of the decoder, which is not among the sources.
  The expected-bits word holds at position \<open>i\<close> the value \<open>to_val\<close> of the tri-state at
  index \<open>i\<close>; the ignore mask is "the bit pattern whose 1-bits are the don't-cares".
  \<open>to_uint64_negated\<close> packs the values of \<open>to_val_negated\<close> in the same way.
\<close>

fun convert_to_uint64 :: "(InputType \<Rightarrow> 64 word) \<Rightarrow> OptionalBitArray \<Rightarrow> 64 word" where
  "convert_to_uint64 conv [] = 0"
| "convert_to_uint64 conv (b # bs) = conv b OR push_bit 1 (convert_to_uint64 conv bs)"

definition to_uint64 :: "OptionalBitArray \<Rightarrow> 64 word" where
  "to_uint64 arr = convert_to_uint64 to_val arr"


definition ignored_bits_to_uint64 :: "OptionalBitArray \<Rightarrow> 64 word" where
  "ignored_bits_to_uint64 arr = convert_to_uint64 (\<lambda>ty. if ty = ignore then 1 else 0) arr"

subsection \<open>The emitted code\<close>

text \<open>
  Modelled from the spec: the expression types of the decoder's header are not among the
  sources. The decoder is "emitted as source text": the synthesizer builds an expression
  tree that a printer turns into C++ text. The constructors are the ones the synthesizer
  calls; \<open>IntE\<close> is the source's \<open>Int\<close>, and \<open>Name\<close> is a bare identifier (a
  \<open>std::string\<close> used as an expression).
\<close>

datatype Expr =
    Empty
  | Name string
  | IntE int
  | Uint64 "64 word"
  | Var string string
  | VarDecl Expr
  | IndexVar Expr nat
  | Statement Expr
  | Return Expr
  | Assign Expr Expr
  | Plus Expr Expr
  | Mul Expr Expr
  | BitwiseOr Expr Expr
  | BitwiseXor Expr Expr
  | BitwiseAnd Expr Expr
  | BitwiseNegate Expr
  | Parenthesis Expr
  | CastToUint64 Expr
  | Shfl Expr Expr
  | Equal Expr Expr
  | And Expr Expr
  | IfElse Expr Expr Expr
  | StatementBlock "Expr list"
  | FunctionCall string "Expr list"
  | FunctionDeclaration string string "Expr list" "Expr list"

definition inner_func_arg1 :: Expr where
  "inner_func_arg1 = Var ''first8bytes'' ''uint64_t''"

definition inner_func_arg2 :: Expr where
  "inner_func_arg2 = Var ''second8bytes'' ''uint64_t''"

fun var_name :: "Expr \<Rightarrow> string" where
  "var_name (Var name ty) = name"
| "var_name _ = []"

record decode_context_function_arg =
  byte :: OptionalBitArray
  var :: Expr

definition contains_ignore_bit :: "OptionalBitArray \<Rightarrow> bool" where
  "contains_ignore_bit arr = list_ex (\<lambda>b. b = ignore) arr"

definition contains_only_ignore_bit :: "OptionalBitArray \<Rightarrow> bool" where
  "contains_only_ignore_bit arr = list_all (\<lambda>b. b = ignore) arr"

definition get_comparison :: "decode_context_function_arg \<Rightarrow> Expr" where
  "get_comparison arg =
     (let uint = Uint64 (to_uint64 (byte arg));
          lhs = CastToUint64 (Parenthesis (BitwiseXor (Name (var_name (var arg))) (BitwiseNegate uint)));
          neg_ignore = Uint64 (NOT (ignored_bits_to_uint64 (byte arg)))
      in Equal lhs neg_ignore)"

definition print_ignore_bits :: "decode_context_function_arg \<Rightarrow> Expr" where
  "print_ignore_bits arg =
     (if contains_ignore_bit (byte arg) \<and> \<not> contains_only_ignore_bit (byte arg)
      then (let name = Name (var_name (var arg));
                ignoringValues = Uint64 (ignored_bits_to_uint64 (byte arg))
            in Statement (Assign name (BitwiseOr name ignoringValues)))
      else Empty)"

text \<open>
  \<open>xs[k]\<close> on a \<open>std::vector\<close>, and the use of a pointer into one: reading beyond the
  end is undefined behaviour in the source and an error here.
\<close>

definition at_index :: "'a list \<Rightarrow> nat \<Rightarrow> error + 'a" where
  "at_index xs k = (if k < length xs then Inr (xs ! k) else Inl IndexBeyondEnd)"

definition get_decode_context_function_body ::
  "decode_context_function_arg \<times> decode_context_function_arg \<Rightarrow> int \<Rightarrow> error + Expr" where
  "get_decode_context_function_body args encoding_size =
     (let block = [print_ignore_bits (fst args), print_ignore_bits (snd args)];
          compare_exprs =
            (if \<not> contains_only_ignore_bit (byte (fst args)) then [get_comparison (fst args)] else [])
            @ (if \<not> contains_only_ignore_bit (byte (snd args)) then [get_comparison (snd args)] else [])
      in if length compare_exprs = 1
         then (case at_index compare_exprs 0 of
                 Inl e \<Rightarrow> Inl e
               | Inr c0 \<Rightarrow>
                   Inr (StatementBlock (block @ [Return (Mul (Parenthesis c0) (IntE encoding_size))])))
         else (case at_index compare_exprs 0 of
                 Inl e \<Rightarrow> Inl e
               | Inr c0 \<Rightarrow>
                   (case at_index compare_exprs 1 of
                      Inl e \<Rightarrow> Inl e
                    | Inr c1 \<Rightarrow>
                        Inr (StatementBlock
                          (block @ [Return (Mul (Parenthesis (And c0 c1)) (IntE encoding_size))])))))"

subsection \<open>Decode conditions and extracted contexts\<close>

text \<open>
  Modelled from the spec: the node types of the IR are not among the sources. A
  \<open>DecodeCondition(constant, extract)\<close> is "a boolean: an \<open>Extract\<close> slice of the
  instruction bits equals a \<open>Constant\<close>", with \<open>Extract(low_inc, high_exc)\<close>. The record
  holds what the decoder reads of the two operands: the \<open>bits\<close> string of the constant
  (operand 0), which it indexes by the distance of a bit from \<open>low_bit_inc\<close>, and the two
  bounds of the extract (operand 1). The bounds are taken to be unsigned 32-bit values, so
  that \<open>high_bit_exc - 1\<close> wraps around at 0.

  An \<open>ExtractedCtx\<close> has the members the code reads: \<open>generated_name\<close>,
  \<open>encoding_size_in_bytes\<close> (a \<open>uint8_t\<close>) and \<open>decodeConditions\<close>.
\<close>

record DecodeCondition =
  bits :: string
  low_bit_inc :: "32 word"
  high_bit_exc :: "32 word"

record ExtractedCtx =
  generated_name :: string
  encoding_size_in_bytes :: "8 word"
  decodeConditions :: "DecodeCondition list"

text \<open>
  \<open>decodeConditions\<close> is a \<open>std::unordered_multiset\<close> of node pointers. The list is the
  multiset in its iteration order; equal elements are adjacent in it, as the container
  guarantees. The order of the other elements is up to the container, and an insertion
  that rehashes it may change that order.
\<close>

definition low :: "DecodeCondition \<Rightarrow> nat" where
  "low n = unat (low_bit_inc n)"

definition high_inc :: "DecodeCondition \<Rightarrow> nat" where
  "high_inc n = unat (high_bit_exc n - 1)"

text \<open>
  \<open>lhsn->bits[k]\<close> on a \<open>std::string\<close>: the character at \<open>k\<close>; at \<open>k = size()\<close> the
  terminating null character; beyond that undefined behaviour, an error here.
\<close>

definition bits_at :: "string \<Rightarrow> nat \<Rightarrow> error + char" where
  "bits_at s k =
     (if k < length s then Inr (s ! k)
      else if k = length s then Inr (CHR 0x00)
      else Inl IndexBeyondEnd)"

text \<open>The loop over \<open>c\<close> of \<open>convert_circIR_to_input_type_array\<close>, one iteration.\<close>

definition set_val :: "DecodeCondition \<Rightarrow> nat \<Rightarrow> nat \<Rightarrow> OptionalBitArray \<Rightarrow> error + OptionalBitArray" where
  "set_val n i c val =
     (let bit_index = i * 8 + c
      in if low n \<le> bit_index \<and> bit_index \<le> high_inc n
         then (case bits_at (bits n) (bit_index - low n) of
                 Inl e \<Rightarrow> Inl e
               | Inr ch \<Rightarrow> (case ctoit ch of Inl e \<Rightarrow> Inl e | Inr new_val \<Rightarrow> Inr (val[c := new_val])))
         else Inr val)"

text \<open>The loop over the decode conditions, one iteration, for byte \<open>i\<close>.\<close>

definition apply_condition :: "nat \<Rightarrow> DecodeCondition \<Rightarrow> OptionalBitArray \<Rightarrow> error + OptionalBitArray" where
  "apply_condition i n val =
     (if low n > (i + 1) * 8 \<or> high_inc n < i * 8 \<or> high_inc n = 119
      then Inr val
      else foldM (set_val n i) [0..<8] val)"

definition input_check :: "DecodeCondition list \<Rightarrow> nat \<Rightarrow> error + OptionalBitArray" where
  "input_check conds i = foldM (apply_condition i) conds (replicate 8 ignore)"

definition convert_circIR_to_input_type_array :: "ExtractedCtx \<Rightarrow> error + OptionalBitArray list" where
  "convert_circIR_to_input_type_array ctx = mapM (input_check (decodeConditions ctx)) [0..<16]"

definition convert_bytes_to_uints64 :: "OptionalBitArray list \<Rightarrow> nat \<Rightarrow> OptionalBitArray" where
  "convert_bytes_to_uints64 bytes offset = map (\<lambda>i. bytes ! (offset + i div 8) ! (i mod 8)) [0..<64]"

definition get_decode_context_function_args ::
  "ExtractedCtx \<Rightarrow> error + decode_context_function_arg \<times> decode_context_function_arg" where
  "get_decode_context_function_args ectx =
     (case convert_circIR_to_input_type_array ectx of
        Inl e \<Rightarrow> Inl e
      | Inr input_checks \<Rightarrow>
          (let val = convert_bytes_to_uints64 input_checks 0;
               val2 = convert_bytes_to_uints64 input_checks 8;
               arg1 = \<lparr>byte = val, var = inner_func_arg1\<rparr>;
               arg2 = \<lparr>byte = val2, var = inner_func_arg2\<rparr>
           in Inr (arg1, arg2)))"

definition print_context_decoder_function :: "ExtractedCtx \<Rightarrow> error + Expr" where
  "print_context_decoder_function ctx =
     (case get_decode_context_function_args ctx of
        Inl e \<Rightarrow> Inl e
      | Inr args \<Rightarrow>
          (case get_decode_context_function_body args (uint (encoding_size_in_bytes ctx)) of
             Inl e \<Rightarrow> Inl e
           | Inr body \<Rightarrow>
               Inr (FunctionDeclaration ''static int'' (generated_name ctx)
                      [VarDecl inner_func_arg1, VarDecl inner_func_arg2] [body])))"

subsection \<open>Requirements per bit index\<close>

text \<open>
  A context is referred to by pointer (\<open>ExtractedCtx *\<close>). The pointers of \<open>to_split\<close>
  point into the vector \<open>extracted_ctxs\<close>; a pointer is modelled by the index of its
  context in that vector, and pointers compare as their indices do. A
  \<open>Decode_Requires_Group\<close> holds the three vectors of pointers that the code fills.
\<close>

record Decode_Requires_Group =
  zeros :: "nat list"
  ones :: "nat list"
  ignores :: "nat list"

definition empty_group :: Decode_Requires_Group where
  "empty_group = \<lparr>zeros = [], ones = [], ignores = []\<rparr>"

text \<open>The loop over the decode conditions of one context, one iteration, for bit \<open>i\<close>.\<close>

definition require :: "nat \<Rightarrow> DecodeCondition \<Rightarrow> InputType \<Rightarrow> error + InputType" where
  "require i n val =
     (if low n > i \<or> high_inc n < i \<or> high_inc n = 119
      then Inr val
      else (case bits_at (bits n) (i - low n) of
              Inl e \<Rightarrow> Inl e
            | Inr ch \<Rightarrow> Inr (if ch = CHR ''0'' then zero else one)))"

definition push_back_ctx :: "InputType \<Rightarrow> nat \<Rightarrow> Decode_Requires_Group \<Rightarrow> Decode_Requires_Group" where
  "push_back_ctx val ctx g =
     (if val = zero then g\<lparr>zeros := zeros g @ [ctx]\<rparr>
      else if val = one then g\<lparr>ones := ones g @ [ctx]\<rparr>
      else g\<lparr>ignores := ignores g @ [ctx]\<rparr>)"

text \<open>The loop over \<open>to_split\<close>, one iteration, for bit \<open>i\<close>.\<close>

definition classify ::
  "ExtractedCtx list \<Rightarrow> (nat \<times> int) list \<Rightarrow> nat \<Rightarrow> nat \<Rightarrow> Decode_Requires_Group
   \<Rightarrow> error + Decode_Requires_Group" where
  "classify extracted_ctxs already_chosen_bits i ctx g =
     (if list_ex (\<lambda>p. fst p = i) already_chosen_bits then Inr g
      else (case at_index extracted_ctxs ctx of
              Inl e \<Rightarrow> Inl e
            | Inr c \<Rightarrow>
                (case foldM (require i) (decodeConditions c) ignore of
                   Inl e \<Rightarrow> Inl e
                 | Inr val \<Rightarrow> Inr (push_back_ctx val ctx g))))"

definition get_decode_requirements_per_index ::
  "ExtractedCtx list \<Rightarrow> nat list \<Rightarrow> (nat \<times> int) list \<Rightarrow> error + Decode_Requires_Group list" where
  "get_decode_requirements_per_index extracted_ctxs to_split already_chosen_bits =
     mapM (\<lambda>i. foldM (classify extracted_ctxs already_chosen_bits i) to_split empty_group) [0..<120]"

subsection \<open>Choosing the bit to test\<close>

text \<open>\<open>operator<\<close> of \<open>std::vector\<close>: lexicographic, a proper prefix is smaller.\<close>

fun vector_less :: "nat list \<Rightarrow> nat list \<Rightarrow> bool" where
  "vector_less [] [] = False"
| "vector_less [] (y # ys) = True"
| "vector_less (x # xs) [] = False"
| "vector_less (x # xs) (y # ys) =
     (if x < y then True else if y < x then False else vector_less xs ys)"

text \<open>\<open>std::min(a, b)\<close> on two vectors: \<open>b\<close> if \<open>b < a\<close>, else \<open>a\<close>.\<close>

definition std_min :: "nat list \<Rightarrow> nat list \<Rightarrow> nat list" where
  "std_min a b = (if vector_less b a then b else a)"

text \<open>\<open>operator<(const Decode_Requires_Group &, const Decode_Requires_Group &)\<close>\<close>

definition group_less :: "Decode_Requires_Group \<Rightarrow> Decode_Requires_Group \<Rightarrow> bool" where
  "group_less x y =
     (let min_x = length (std_min (zeros x) (ones x));
          min_y = length (std_min (zeros y) (ones y))
      in min_x < min_y)"

text \<open>
  \<open>std::max_element\<close> followed by \<open>std::distance\<close>: the index of the first element that
  no other element is greater than. The loop carries the index and the value of the
  largest element so far and the index of the next element.
\<close>

fun max_element_loop ::
  "nat \<Rightarrow> Decode_Requires_Group \<Rightarrow> nat \<Rightarrow> Decode_Requires_Group list \<Rightarrow> nat" where
  "max_element_loop largest g k [] = largest"
| "max_element_loop largest g k (x # xs) =
     (if group_less g x then max_element_loop k x (Suc k) xs
      else max_element_loop largest g (Suc k) xs)"

definition max_element :: "Decode_Requires_Group list \<Rightarrow> nat" where
  "max_element gs = (case gs of [] \<Rightarrow> 0 | g # rest \<Rightarrow> max_element_loop 0 g 1 rest)"

text \<open>The score the specification gives to a bit index.\<close>

definition min_score :: "Decode_Requires_Group \<Rightarrow> nat" where
  "min_score g = min (length (zeros g)) (length (ones g))"

subsection \<open>The selection tree\<close>

definition call_ctx :: "ExtractedCtx \<Rightarrow> Expr" where
  "call_ctx ctx = FunctionCall (generated_name ctx) [inner_func_arg1, inner_func_arg2]"

text \<open>
  \<open>generate_decoder_selection_tree\<close>. The name of the input buffer,
  \<open>bytes_input_variable\<close>, is a constant of the header and a parameter here; the member
  \<open>max_depth\<close> is passed in and returned with the tree.
\<close>

definition untested :: "(nat \<times> int) list \<Rightarrow> nat" where
  "untested already_chosen_bits = card ({..<120} - fst ` set already_chosen_bits)"

function generate_decoder_selection_tree ::
  "string \<Rightarrow> ExtractedCtx list \<Rightarrow> nat list \<Rightarrow> (nat \<times> int) list \<Rightarrow> int \<Rightarrow> int
   \<Rightarrow> error + Expr \<times> int" where
  "generate_decoder_selection_tree bytes_input_variable extracted_ctxs to_split
       already_chosen_bits depth max_depth0 =
     (let max_depth = (if max_depth0 < depth then depth else max_depth0)
      in if to_split = [] then Inr (Return (IntE (- 1)), max_depth)
         else if length to_split = 1
         then (case at_index extracted_ctxs (to_split ! 0) of
                 Inl e \<Rightarrow> Inl e
               | Inr c \<Rightarrow> Inr (Return (call_ctx c), max_depth))
         else (case get_decode_requirements_per_index extracted_ctxs to_split already_chosen_bits of
                 Inl e \<Rightarrow> Inl e
               | Inr indice_values \<Rightarrow>
                   (let candidate_index = max_element indice_values;
                        chosen = already_chosen_bits @ [(candidate_index, depth)];
                        ones = ones (indice_values ! candidate_index)
                               @ ignores (indice_values ! candidate_index);
                        zeros = zeros (indice_values ! candidate_index)
                                @ ignores (indice_values ! candidate_index)
                    in if ones = [] \<and> zeros = [] then Inr (Return (IntE (- 1)), max_depth)
                       else
                         (let ci_byte = candidate_index div 8;
                              lhs = IndexVar (Var bytes_input_variable []) ci_byte;
                              rhs2 = Parenthesis (Shfl (IntE 1) (IntE (int (candidate_index mod 8))));
                              condition = BitwiseAnd lhs rhs2
                          in (case generate_decoder_selection_tree bytes_input_variable
                                     extracted_ctxs ones chosen (depth + 1) max_depth of
                                Inl e \<Rightarrow> Inl e
                              | Inr (lhs_split, max_depth1) \<Rightarrow>
                                  (case generate_decoder_selection_tree bytes_input_variable
                                          extracted_ctxs zeros chosen (depth + 1) max_depth1 of
                                     Inl e \<Rightarrow> Inl e
                                   | Inr (rhs_split, max_depth2) \<Rightarrow>
                                       Inr (IfElse condition lhs_split rhs_split, max_depth2)))))))"
  by pat_completeness auto

subsection \<open>Extracting the contexts\<close>

text \<open>
  \<open>extract_ctx\<close> walks the \<open>VerifyInstruction\<close> contexts of the circuit. \<open>GetContexts\<close> and
  \<open>SubtreeCollector\<close> are not among the sources; a context is given here by its id and by
  the decode conditions the collector finds under it, in the iteration order of the
  multiset.
\<close>

record VerifyInstruction =
  vi_id :: nat
  collected :: "DecodeCondition list"

text \<open>\<open>std::to_string\<close> of an unsigned number.\<close>

fun to_string :: "nat \<Rightarrow> string" where
  "to_string n =
     (if n < 10 then [char_of (48 + n)] else to_string (n div 10) @ [char_of (48 + n mod 10)])"

definition extract_one :: "VerifyInstruction \<Rightarrow> error + ExtractedCtx" where
  "extract_one vi =
     (let decNodes = collected vi
      in case find (\<lambda>dc. high_bit_exc dc = 120) decNodes of
           None \<Rightarrow> Inl (InvalidArgument ''No decode condition that specifies end'')
         | Some x \<Rightarrow>
             (let encoding_length = unat (low_bit_inc x) div 8
              in if encoding_length > 15
                 then Inl (InvalidArgument ''Instruction is longer than 15 bytes'')
                 else Inr \<lparr>generated_name = ''generated_decoder_prefix_'' @ to_string (vi_id vi),
                           encoding_size_in_bytes = of_nat encoding_length,
                           decodeConditions = decNodes\<rparr>))"

definition extract_ctx :: "VerifyInstruction list \<Rightarrow> ExtractedCtx list \<Rightarrow> error + ExtractedCtx list" where
  "extract_ctx Contexts extracted_ctxs =
     foldM (\<lambda>vi ctxs. case extract_one vi of Inl e \<Rightarrow> Inl e | Inr c \<Rightarrow> Inr (ctxs @ [c]))
       Contexts extracted_ctxs"

text \<open>
  The three cases in which the specification expects an error: no condition whose
  \<open>Extract\<close> ends at bit 120, an encoding length above 15 bytes, and two conditions that
  constrain the same bit to different values.
\<close>

definition no_length_delimiter :: "VerifyInstruction \<Rightarrow> bool" where
  "no_length_delimiter vi = (\<not> list_ex (\<lambda>dc. high_bit_exc dc = 120) (collected vi))"

definition longer_than_15_bytes :: "VerifyInstruction \<Rightarrow> bool" where
  "longer_than_15_bytes vi =
     (case find (\<lambda>dc. high_bit_exc dc = 120) (collected vi) of
        None \<Rightarrow> False
      | Some x \<Rightarrow> unat (low_bit_inc x) div 8 > 15)"

definition constrains_bit :: "DecodeCondition \<Rightarrow> nat \<Rightarrow> bool" where
  "constrains_bit n i = (low n \<le> i \<and> i \<le> high_inc n \<and> high_inc n \<noteq> 119)"

definition disagree :: "DecodeCondition list \<Rightarrow> bool" where
  "disagree conds =
     list_ex (\<lambda>n. list_ex (\<lambda>n'. list_ex (\<lambda>i.
         constrains_bit n i \<and> constrains_bit n' i \<and> bits n ! (i - low n) \<noteq> bits n' ! (i - low n'))
       [0..<120]) conds) conds"

subsection \<open>Copies of a decode condition\<close>

text \<open>
  \<open>decodeConditions.insert(d)\<close> for a condition \<open>d\<close> that the multiset already holds. The
  insertion may rehash the container, so the iteration order after it is some order of
  the same elements with one more \<open>d\<close>: \<open>ys\<close> is such an order for the multiset that
  iterates as \<open>xs\<close>.
\<close>

definition with_copy :: "'a \<Rightarrow> 'a list \<Rightarrow> 'a list \<Rightarrow> bool" where
  "with_copy d xs ys =
     (d \<in> set xs \<and> list_all (\<lambda>x. count_list ys x = count_list (d # xs) x) (ys @ xs))"

text \<open>
  The conditions of a context agree when any two of them that constrain the same bit of
  the encoding read the same character of their constants for it.
\<close>

definition agree :: "DecodeCondition list \<Rightarrow> bool" where
  "agree conds =
     list_all (\<lambda>n. list_all (\<lambda>n'. list_all (\<lambda>i.
         constrains_bit n i \<and> constrains_bit n' i \<longrightarrow>
           bits_at (bits n) (i - low n) = bits_at (bits n') (i - low n'))
       [0..<128]) conds) conds"

text \<open>
  What condition \<open>n\<close> does to bit \<open>c\<close> of byte \<open>i\<close> of the projected pattern: whether it
  writes the bit, and the tri-state it writes.
\<close>

definition writes_bit :: "DecodeCondition \<Rightarrow> nat \<Rightarrow> nat \<Rightarrow> bool" where
  "writes_bit n i c =
     (\<not> (low n > (i + 1) * 8 \<or> high_inc n < i * 8 \<or> high_inc n = 119)
      \<and> c < 8 \<and> low n \<le> i * 8 + c \<and> i * 8 + c \<le> high_inc n)"

definition written_bit :: "DecodeCondition \<Rightarrow> nat \<Rightarrow> nat \<Rightarrow> InputType" where
  "written_bit n i c = projr (ctoit (projr (bits_at (bits n) (i * 8 + c - low n))))"

section \<open>Shadow instructions: regions of the encoding (shadowinst)\<close>

text \<open>
  \<open>region_t\<close> is a \<open>std::map<uint64_t, uint64_t>\<close> from the first bit of a region to its
  size. The list holds the entries in the order the map iterates them, by ascending key;
  \<open>assign\<close> is \<open>out[k] = v\<close>.
\<close>

type_synonym region_t = "(64 word \<times> 64 word) list"

definition is_map :: "region_t \<Rightarrow> bool" where
  "is_map m = sorted_wrt (<) (map fst m)"

fun assign :: "64 word \<Rightarrow> 64 word \<Rightarrow> region_t \<Rightarrow> region_t" where
  "assign k v [] = [(k, v)]"
| "assign k v ((k', v') # m) =
     (if k < k' then (k, v) # (k', v') # m
      else if k = k' then (k, v) # m
      else (k', v') # assign k v m)"

text \<open>The body of the loop of \<open>Invert\<close>; the state is \<open>(out, current)\<close>.\<close>

definition Invert_step :: "64 word \<times> 64 word \<Rightarrow> region_t \<times> 64 word \<Rightarrow> region_t \<times> 64 word" where
  "Invert_step r acc =
     (case r of (from, sz) \<Rightarrow> case acc of (out, current) \<Rightarrow>
        (if current \<noteq> from then assign current (from - current) out else out, from + sz))"

definition Invert :: "region_t \<Rightarrow> 64 word \<Rightarrow> region_t" where
  "Invert what lenght =
     (case fold Invert_step what ([], 0) of (out, current) \<Rightarrow>
        if current \<noteq> lenght then assign current (lenght - current) out else out)"

text \<open>\<open>has_regions::present\<close>, on the regions of the object.\<close>

definition present :: "region_t \<Rightarrow> 64 word \<Rightarrow> bool" where
  "present regions idx = list_ex (\<lambda>(from, sz). idx \<ge> from \<and> idx < from + sz) regions"

text \<open>
  The operands of a shadow instruction. \<open>Reg\<close>, \<open>Immediate\<close> and \<open>Shift\<close> are
  \<open>has_regions\<close>; only their regions are read by the functions below.
\<close>

record Address =
  base_reg :: "region_t option"
  index_reg :: "region_t option"
  segment :: "region_t option"
  scale :: "region_t option"
  displacement :: "region_t option"

record Operand =
  immediate :: "region_t option"
  reg :: "region_t option"
  address :: "Address option"
  shift :: "region_t option"

record Instruction =
  operands :: "Operand list"

text \<open>\<open>if (x) for (auto [from, size] : *x) out[from] = size;\<close>\<close>

definition collect :: "region_t option \<Rightarrow> region_t \<Rightarrow> region_t" where
  "collect x out = (case x of None \<Rightarrow> out | Some rs \<Rightarrow> fold (\<lambda>(from, sz). assign from sz) rs out)"

definition collect_address :: "Address option \<Rightarrow> region_t \<Rightarrow> region_t" where
  "collect_address a out =
     (case a of
        None \<Rightarrow> out
      | Some ad \<Rightarrow>
          collect (displacement ad) (collect (scale ad) (collect (index_reg ad) (collect (base_reg ad) out))))"

definition IdentifiedRegions :: "Instruction \<Rightarrow> region_t" where
  "IdentifiedRegions inst =
     fold (\<lambda>op out. collect_address (address op) (collect (shift op) (collect (reg op) (collect (immediate op) out))))
       (operands inst) []"

definition UnknownRegions :: "Instruction \<Rightarrow> 64 word \<Rightarrow> region_t" where
  "UnknownRegions inst lenght = Invert (IdentifiedRegions inst) lenght"

text \<open>
  What the claim about \<open>Invert\<close> assumes of the regions, read as the half-open intervals
  \<open>[from, from + size)\<close>: each lies within \<open>[0, lenght)\<close>, and of two of them one ends
  strictly before the other begins (disjoint and not adjacent).
\<close>

definition inside :: "64 word \<Rightarrow> 64 word \<times> 64 word \<Rightarrow> bool" where
  "inside lenght r = (unat (fst r) + unat (snd r) \<le> unat lenght)"

definition apart :: "64 word \<times> 64 word \<Rightarrow> 64 word \<times> 64 word \<Rightarrow> bool" where
  "apart r r' =
     (unat (fst r) + unat (snd r) < unat (fst r') \<or> unat (fst r') + unat (snd r') < unat (fst r))"

text \<open>
  Regions in ascending order, each starting at or after \<open>cur\<close> and after the end of the
  one before, the last ending at or before \<open>len\<close>.
\<close>

fun chain :: "nat \<Rightarrow> region_t \<Rightarrow> nat \<Rightarrow> bool" where
  "chain cur [] len = (cur \<le> len)"
| "chain cur ((f, s) # rs) len =
     (cur \<le> unat f \<and> unat f + unat s \<le> len \<and> chain (unat f + unat s) rs len)"

section \<open>Command line driver (Main.cpp)\<close>

text \<open>
  The flags \<open>main\<close> reads, the collaborators it calls (lifting, deserialization and the
  two raw rewrite passes, parameters here) and what the process leaves behind: its exit
  code, the lines written to \<open>std::cerr\<close> and the files written.
\<close>

record Flags =
  FLAGS_arch :: string
  FLAGS_os :: string
  FLAGS_binary_in :: string
  FLAGS_ir_in :: string
  FLAGS_ir_out :: string
  FLAGS_dot_out :: string
  FLAGS_python_out :: string
  FLAGS_smt_out :: string
  FLAGS_json_out :: string

record 'c Collaborators =
  CreateFromInstructions :: "string \<Rightarrow> string \<Rightarrow> string \<Rightarrow> 'c option"
  Deserialize :: "string \<Rightarrow> 'c option"
  ConvertPopCountToParity :: "'c \<Rightarrow> 'c"
  StrengthReducePopulationCount :: "'c \<Rightarrow> 'c"

datatype Printer = Serialize | PrintDOT | PrintPython | PrintSMT | PrintJSON

record 'c Outcome =
  exit_code :: int
  cerr :: "string list"
  written :: "(string \<times> Printer \<times> 'c) list"

definition EXIT_SUCCESS :: int where
  "EXIT_SUCCESS = 0"

definition EXIT_FAILURE :: int where
  "EXIT_FAILURE = 1"

text \<open>
  The first \<open>if\<close> chain of \<open>main\<close>: \<open>None\<close> when neither input flag is set, otherwise the
  pointer the collaborator returned (\<open>Some None\<close> is the null pointer).
\<close>

definition get_circuit :: "'c Collaborators \<Rightarrow> Flags \<Rightarrow> 'c option option" where
  "get_circuit env fl =
     (if FLAGS_binary_in fl \<noteq> []
      then Some (CreateFromInstructions env (FLAGS_arch fl) (FLAGS_os fl) (FLAGS_binary_in fl))
      else if FLAGS_ir_in fl \<noteq> []
      then Some (Deserialize env (if FLAGS_ir_in fl = ''-'' then ''/dev/stdin'' else FLAGS_ir_in fl))
      else None)"

definition sink :: "string \<Rightarrow> string \<Rightarrow> Printer \<Rightarrow> 'c \<Rightarrow> (string \<times> Printer \<times> 'c) list" where
  "sink flag dash printer circuit =
     (if flag \<noteq> [] then [(if flag = ''-'' then dash else flag, printer, circuit)] else [])"

definition main :: "'c Collaborators \<Rightarrow> Flags \<Rightarrow> 'c Outcome" where
  "main env fl =
     (case get_circuit env fl of
        None \<Rightarrow>
          \<lparr>exit_code = EXIT_FAILURE, cerr = [''Expected one of `--binary_in` or `--ir_in`''],
           written = []\<rparr>
      | Some None \<Rightarrow>
          \<lparr>exit_code = EXIT_FAILURE, cerr = [''Failed to get circuit IR''], written = []\<rparr>
      | Some (Some circuit0) \<Rightarrow>
          (let circuit = StrengthReducePopulationCount env (ConvertPopCountToParity env circuit0)
           in \<lparr>exit_code = EXIT_SUCCESS, cerr = [],
               written =
                 sink (FLAGS_ir_out fl) ''/dev/stdout'' Serialize circuit
                 @ sink (FLAGS_dot_out fl) ''/dev/stderr'' PrintDOT circuit
                 @ sink (FLAGS_python_out fl) ''/dev/stderr'' PrintPython circuit
                 @ sink (FLAGS_smt_out fl) ''/dev/stderr'' PrintSMT circuit
                 @ sink (FLAGS_json_out fl) ''/dev/stderr'' PrintJSON circuit\<rparr>))"

section \<open>Union-find\<close>

text \<open>
  Modelled from the spec: \<open>circuitous/ADT/UnionFind.hpp\<close> is not among the sources. The
  union-find is a "disjoint-set forest with path compression and union-by-rank over
  opaque 32-bit class ids"; ids are "dense 32-bit naturals starting at 0"; \<open>find\<close> is
  read-only, \<open>find_compress\<close> does path halving, \<open>merge\<close> is union by rank and returns
  the survivor, "\<open>merge(a,a)\<close> is a no-op returning \<open>a\<close>", and "\<open>find\<close> on an unknown id is
  a programmer error (fatal)". The forest is the list of the parents of the ids. The
  loops that climb to a root take the number of ids as fuel: a climb that does not
  reach a root within that many steps is on a cycle and never returns.
\<close>

type_synonym Id = nat

record UnionFind =
  uf_parents :: "Id list"
  uf_ranks :: "nat list"

definition empty_unions :: UnionFind where
  "empty_unions = \<lparr>uf_parents = [], uf_ranks = []\<rparr>"

definition make_set :: "UnionFind \<Rightarrow> Id \<times> UnionFind" where
  "make_set uf =
     (let cid = length (uf_parents uf) mod 2 ^ 32
      in (cid, uf\<lparr>uf_parents := uf_parents uf @ [cid], uf_ranks := uf_ranks uf @ [0]\<rparr>))"

fun find_loop :: "nat \<Rightarrow> Id list \<Rightarrow> Id \<Rightarrow> error + Id" where
  "find_loop 0 ps i =
     (if i \<ge> length ps then Inl UnknownId
      else if ps ! i = i then Inr i
      else Inl NoReturn)"
| "find_loop (Suc fuel) ps i =
     (if i \<ge> length ps then Inl UnknownId
      else if ps ! i = i then Inr i
      else find_loop fuel ps (ps ! i))"

definition uf_find :: "UnionFind \<Rightarrow> Id \<Rightarrow> error + Id" where
  "uf_find uf i = find_loop (length (uf_parents uf)) (uf_parents uf) i"

fun find_compress_loop :: "nat \<Rightarrow> Id list \<Rightarrow> Id \<Rightarrow> error + Id \<times> Id list" where
  "find_compress_loop 0 ps i =
     (if i \<ge> length ps then Inl UnknownId
      else if ps ! i = i then Inr (i, ps)
      else Inl NoReturn)"
| "find_compress_loop (Suc fuel) ps i =
     (if i \<ge> length ps then Inl UnknownId
      else if ps ! i = i then Inr (i, ps)
      else if ps ! i \<ge> length ps then Inl UnknownId
      else (let grandparent = ps ! (ps ! i)
            in find_compress_loop fuel (ps[i := grandparent]) grandparent))"

definition find_compress :: "UnionFind \<Rightarrow> Id \<Rightarrow> error + Id \<times> UnionFind" where
  "find_compress uf i =
     (case find_compress_loop (length (uf_parents uf)) (uf_parents uf) i of
        Inl e \<Rightarrow> Inl e
      | Inr (r, ps) \<Rightarrow> Inr (r, uf\<lparr>uf_parents := ps\<rparr>))"

definition uf_merge :: "UnionFind \<Rightarrow> Id \<Rightarrow> Id \<Rightarrow> error + Id \<times> UnionFind" where
  "uf_merge uf a b =
     (case uf_find uf a of
        Inl e \<Rightarrow> Inl e
      | Inr ra \<Rightarrow>
          (case uf_find uf b of
             Inl e \<Rightarrow> Inl e
           | Inr rb \<Rightarrow>
               if ra = rb then Inr (ra, uf)
               else if uf_ranks uf ! ra < uf_ranks uf ! rb
               then Inr (rb, uf\<lparr>uf_parents := (uf_parents uf)[ra := rb]\<rparr>)
               else Inr (ra, uf\<lparr>uf_parents := (uf_parents uf)[rb := ra],
                                 uf_ranks :=
                                   (if uf_ranks uf ! ra = uf_ranks uf ! rb
                                    then (uf_ranks uf)[ra := Suc (uf_ranks uf ! ra)]
                                    else uf_ranks uf)\<rparr>)))"

section \<open>E-graph (EGraph.hpp)\<close>

text \<open>
  An e-node holds its storage and the ids of its children. The e-graph owns its nodes in
  the vector \<open>_nodes\<close>; an \<open>ENode *\<close> is modelled by the index of the node in that vector.
  The members \<open>_nodes\<close>, \<open>_unions\<close>, \<open>_classes\<close>, \<open>_ids\<close> and \<open>_pending\<close> are the fields
  \<open>m_nodes\<close> to \<open>m_pending\<close>.
\<close>

record 'a ENode =
  storage :: 'a
  children :: "Id list"

record EClass =
  nodes :: "nat list"
  parents :: "nat list"

definition empty_class :: EClass where
  "empty_class = \<lparr>nodes = [], parents = []\<rparr>"

text \<open>
  A \<open>std::unordered_map\<close> is the list of its entries, with no key twice; the order of the
  list stands for the unspecified iteration order.
\<close>

type_synonym ('k, 'v) unordered_map = "('k \<times> 'v) list"

record 'a EGraph =
  m_nodes :: "'a ENode list"
  m_unions :: UnionFind
  m_classes :: "(Id, EClass) unordered_map"
  m_ids :: "(nat, Id) unordered_map"
  m_pending :: "Id list"

definition empty_egraph :: "'a EGraph" where
  "empty_egraph =
     \<lparr>m_nodes = [], m_unions = empty_unions, m_classes = [], m_ids = [], m_pending = []\<rparr>"

text \<open>\<open>unordered_map::emplace\<close> and \<open>try_emplace\<close> keep an entry that is already there.\<close>

definition emplace :: "('k, 'v) unordered_map \<Rightarrow> 'k \<Rightarrow> 'v \<Rightarrow> ('k, 'v) unordered_map" where
  "emplace m k v = (case map_of m k of None \<Rightarrow> m @ [(k, v)] | Some old \<Rightarrow> m)"

text \<open>\<open>unordered_map::at\<close> throws \<open>std::out_of_range\<close> for a missing key.\<close>

definition at :: "('k, 'v) unordered_map \<Rightarrow> 'k \<Rightarrow> error + 'v" where
  "at m k = (case map_of m k of None \<Rightarrow> Inl OutOfRange | Some v \<Rightarrow> Inr v)"

text \<open>
  \<open>unordered_map::operator[]\<close> inserts a value-initialized entry for a missing key: the
  value read, and the map after the read.
\<close>

definition index :: "'v \<Rightarrow> ('k, 'v) unordered_map \<Rightarrow> 'k \<Rightarrow> 'v \<times> ('k, 'v) unordered_map" where
  "index dflt m k = (case map_of m k of None \<Rightarrow> (dflt, m @ [(k, dflt)]) | Some v \<Rightarrow> (v, m))"

text \<open>Assignment through \<open>operator[]\<close>, and \<open>erase\<close>.\<close>

definition assign_at :: "('k, 'v) unordered_map \<Rightarrow> 'k \<Rightarrow> 'v \<Rightarrow> ('k, 'v) unordered_map" where
  "assign_at m k v = AList.update k v m"

definition erase :: "('k, 'v) unordered_map \<Rightarrow> 'k \<Rightarrow> ('k, 'v) unordered_map" where
  "erase m k = AList.delete k m"

definition create_singleton_eclass :: "'a EGraph \<Rightarrow> nat \<Rightarrow> Id \<times> 'a EGraph" where
  "create_singleton_eclass g enode =
     (case make_set (m_unions g) of
        (cid, unions) \<Rightarrow>
          (cid, g\<lparr>m_unions := unions,
                 m_ids := emplace (m_ids g) enode cid,
                 m_classes := emplace (m_classes g) cid \<lparr>nodes = [enode], parents = []\<rparr>\<rparr>))"

text \<open>\<open>update_children\<close> with \<open>find_compress\<close>: the new children and the union-find after.\<close>

fun canonicalize_children :: "UnionFind \<Rightarrow> Id list \<Rightarrow> error + Id list \<times> UnionFind" where
  "canonicalize_children uf [] = Inr ([], uf)"
| "canonicalize_children uf (child # rest) =
     (case find_compress uf child of
        Inl e \<Rightarrow> Inl e
      | Inr (r, uf1) \<Rightarrow>
          (case canonicalize_children uf1 rest of
             Inl e \<Rightarrow> Inl e
           | Inr (rs, uf2) \<Rightarrow> Inr (r # rs, uf2)))"

text \<open>\<open>canonicalize\<close> of a node of the graph, given by its pointer.\<close>

definition canonicalize :: "nat \<Rightarrow> 'a EGraph \<Rightarrow> error + 'a EGraph" where
  "canonicalize p g =
     (case at_index (m_nodes g) p of
        Inl e \<Rightarrow> Inl e
      | Inr node \<Rightarrow>
          (case canonicalize_children (m_unions g) (children node) of
             Inl e \<Rightarrow> Inl e
           | Inr (cs, unions) \<Rightarrow>
               Inr (g\<lparr>m_nodes := (m_nodes g)[p := node\<lparr>children := cs\<rparr>], m_unions := unions\<rparr>)))"

text \<open>\<open>parents(child).push_back(node_ptr)\<close>, with \<open>parents(id)\<close> being \<open>_classes.at(id).parents\<close>.\<close>

definition add_parent ::
  "nat \<Rightarrow> Id \<Rightarrow> (Id, EClass) unordered_map \<Rightarrow> error + (Id, EClass) unordered_map" where
  "add_parent node_ptr child classes =
     (case at classes child of
        Inl e \<Rightarrow> Inl e
      | Inr c \<Rightarrow> Inr (assign_at classes child (c\<lparr>parents := parents c @ [node_ptr]\<rparr>)))"

definition add :: "'a EGraph \<Rightarrow> 'a ENode \<Rightarrow> error + Id \<times> nat \<times> 'a EGraph" where
  "add g node =
     (case canonicalize_children (m_unions g) (children node) of
        Inl e \<Rightarrow> Inl e
      | Inr (cs, unions) \<Rightarrow>
          (let node_ptr = length (m_nodes g);
               g1 = g\<lparr>m_nodes := m_nodes g @ [node\<lparr>children := cs\<rparr>], m_unions := unions\<rparr>
           in case create_singleton_eclass g1 node_ptr of
                (cid, g2) \<Rightarrow>
                  (case foldM (add_parent node_ptr) cs (m_classes g2) of
                     Inl e \<Rightarrow> Inl e
                   | Inr classes \<Rightarrow> Inr (cid, node_ptr, g2\<lparr>m_classes := classes\<rparr>))))"

text \<open>The two overloads of \<open>find\<close>.\<close>

definition find_id :: "'a EGraph \<Rightarrow> Id \<Rightarrow> error + Id" where
  "find_id g cid = uf_find (m_unions g) cid"

definition find_enode :: "'a EGraph \<Rightarrow> nat \<Rightarrow> error + Id" where
  "find_enode g enode =
     (case at (m_ids g) enode of Inl e \<Rightarrow> Inl e | Inr cid \<Rightarrow> uf_find (m_unions g) cid)"

definition merge :: "'a EGraph \<Rightarrow> Id \<Rightarrow> Id \<Rightarrow> error + Id \<times> 'a EGraph" where
  "merge g a0 b0 =
     (case find_compress (m_unions g) a0 of
        Inl e \<Rightarrow> Inl e
      | Inr (a1, unions1) \<Rightarrow>
          (case find_compress unions1 b0 of
             Inl e \<Rightarrow> Inl e
           | Inr (b1, unions2) \<Rightarrow>
               if a1 = b1 then Inr (a1, g\<lparr>m_unions := unions2\<rparr>)
               else
                 (case at (m_classes g) a1 of
                    Inl e \<Rightarrow> Inl e
                  | Inr class_a1 \<Rightarrow>
                      (case at (m_classes g) b1 of
                         Inl e \<Rightarrow> Inl e
                       | Inr class_b1 \<Rightarrow>
                           (let swap = length (parents class_a1) < length (parents class_b1);
                                a = (if swap then b1 else a1);
                                b = (if swap then a1 else b1)
                            in case uf_merge unions2 a b of
                                 Inl e \<Rightarrow> Inl e
                               | Inr (new_id, unions3) \<Rightarrow>
                                   if new_id \<noteq> a then Inl CheckFailed
                                   else
                                     (case index empty_class (m_classes g) b of
                                        (class_b, classes1) \<Rightarrow>
                                          (case index empty_class (erase classes1 b) a of
                                             (class_a, classes2) \<Rightarrow>
                                               Inr (new_id,
                                                    g\<lparr>m_unions := unions3,
                                                       m_pending := m_pending g @ [new_id],
                                                       m_classes :=
                                                         assign_at classes2 a
                                                           \<lparr>nodes = nodes class_a @ nodes class_b,
                                                            parents = parents class_a @ parents class_b\<rparr>\<rparr>))))))))"

text \<open>The first loop of \<open>repair\<close>, one iteration.\<close>

definition repair_node :: "nat \<Rightarrow> 'a EGraph \<Rightarrow> error + 'a EGraph" where
  "repair_node node g =
     (case canonicalize node g of
        Inl e \<Rightarrow> Inl e
      | Inr g1 \<Rightarrow>
          (case index 0 (m_ids g1) node of
             (cid, ids) \<Rightarrow>
               (case find_compress (m_unions g1) cid of
                  Inl e \<Rightarrow> Inl e
                | Inr (r, unions) \<Rightarrow> Inr (g1\<lparr>m_unions := unions, m_ids := assign_at ids node r\<rparr>))))"

text \<open>
  The second loop of \<open>repair\<close>, one iteration. \<open>new_parents\<close> is an \<open>unordered_map\<close>; the
  list holds its entries in the order of their insertion.
\<close>

definition repair_parent ::
  "nat \<Rightarrow> (Id \<times> nat) list \<times> 'a EGraph \<Rightarrow> error + (Id \<times> nat) list \<times> 'a EGraph" where
  "repair_parent node acc =
     (case acc of
        (new_parents, g) \<Rightarrow>
          (case index 0 (m_ids g) node of
             (cid0, ids) \<Rightarrow>
               (case find_compress (m_unions g) cid0 of
                  Inl e \<Rightarrow> Inl e
                | Inr (cid, unions) \<Rightarrow>
                    Inr (if cid \<in> fst ` set new_parents then new_parents else new_parents @ [(cid, node)],
                         g\<lparr>m_unions := unions, m_ids := ids\<rparr>))))"

text \<open>\<open>repair(_classes[id])\<close>\<close>

definition repair :: "Id \<Rightarrow> 'a EGraph \<Rightarrow> error + 'a EGraph" where
  "repair cid g0 =
     (case index empty_class (m_classes g0) cid of
        (eclass, classes0) \<Rightarrow>
          (case foldM repair_node (nodes eclass) (g0\<lparr>m_classes := classes0\<rparr>) of
             Inl e \<Rightarrow> Inl e
           | Inr g1 \<Rightarrow>
               (case foldM repair_parent (parents eclass) ([], g1) of
                  Inl e \<Rightarrow> Inl e
                | Inr (new_parents, g2) \<Rightarrow>
                    (let classes1 =
                           assign_at (m_classes g2) cid (eclass\<lparr>parents := map snd new_parents\<rparr>);
                         classes2 = filter (\<lambda>entry. nodes (snd entry) \<noteq> []) classes1
                     in Inr (g2\<lparr>m_classes := classes2\<rparr>)))))"

text \<open>The first loop of \<open>rebuild\<close>, one iteration of the outer loop.\<close>

definition canonicalize_class :: "Id \<Rightarrow> 'a EGraph \<Rightarrow> error + 'a EGraph" where
  "canonicalize_class cid g =
     (case index empty_class (m_classes g) cid of
        (eclass, classes) \<Rightarrow> foldM canonicalize (nodes eclass) (g\<lparr>m_classes := classes\<rparr>))"

text \<open>
  The second loop of \<open>rebuild\<close>, one iteration. \<open>changed_classes\<close> is an
  \<open>unordered_set\<close>; the list holds its elements in the order of their insertion.
\<close>

definition note_changed :: "Id \<Rightarrow> Id list \<times> 'a EGraph \<Rightarrow> error + Id list \<times> 'a EGraph" where
  "note_changed cid acc =
     (case acc of
        (changed_classes, g) \<Rightarrow>
          (case find_compress (m_unions g) cid of
             Inl e \<Rightarrow> Inl e
           | Inr (r, unions) \<Rightarrow>
               Inr (if r \<in> set changed_classes then changed_classes else changed_classes @ [r],
                    g\<lparr>m_unions := unions\<rparr>)))"

definition rebuild :: "'a EGraph \<Rightarrow> error + 'a EGraph" where
  "rebuild g0 =
     (case foldM canonicalize_class (m_pending g0) g0 of
        Inl e \<Rightarrow> Inl e
      | Inr g1 \<Rightarrow>
          (case foldM note_changed (m_pending g1) ([], g1) of
             Inl e \<Rightarrow> Inl e
           | Inr (changed_classes, g2) \<Rightarrow>
               (case foldM repair changed_classes g2 of
                  Inl e \<Rightarrow> Inl e
                | Inr g3 \<Rightarrow> Inr (g3\<lparr>m_pending := []\<rparr>))))"

text \<open>
  The canonical key of an e-node: its storage and its children, each canonicalized
  with \<open>find\<close>.
\<close>

definition node_key :: "'a EGraph \<Rightarrow> 'a ENode \<Rightarrow> 'a \<times> (error + Id) list" where
  "node_key g node = (storage node, map (find_id g) (children node))"

definition canonical_key :: "'a EGraph \<Rightarrow> nat \<Rightarrow> 'a \<times> (error + Id) list" where
  "canonical_key g enode = node_key g (m_nodes g ! enode)"


section \<open>E-matching (ematch.hpp)\<close>

subsection \<open>Patterns\<close>

text \<open>
  Modelled from the spec: the pattern types of \<open>eqsat/pattern/rewrite_rule.hpp\<close> are not
  among the sources. "A pattern is a tree of: \<open>constant(value)\<close>, \<open>operation(name)\<close>,
  \<open>place(name)\<close> (a variable binding), \<open>label(name)\<close> (named sub-pattern reference), or
  \<open>list(head, children...)\<close>"; "\<open>atom\<close> and \<open>simple_expr\<close> are sum types that dispatch to
  the above cases"; a \<open>match_pattern\<close> is the full left-hand side, whose \<open>action\<close> is a
  \<open>simple_expr\<close> or a \<open>match_expr\<close>. Places are identified by their names.
\<close>

type_synonym place_t = string

datatype atom_t =
    constant_t int
  | operation_t string
  | place_t place_t
  | label_t string

datatype simple_expr =
    atom atom_t
  | expr_list "simple_expr list"

datatype action_t =
    simple simple_expr
  | match_expr "string list"

record match_pattern =
  action :: action_t

type_synonym places_t = "place_t list"

text \<open>
  Modelled from the spec: \<open>gather_places\<close> is not among the sources. It collects "every
  place declared by the pattern": the places that occur in the pattern, each once, in
  the order of their last occurrence.
\<close>

fun places_of :: "simple_expr \<Rightarrow> place_t list" where
  "places_of (atom (place_t p)) = [p]"
| "places_of (atom a) = []"
| "places_of (expr_list es) = concat (map places_of es)"

definition gather_places :: "match_pattern \<Rightarrow> places_t" where
  "gather_places pattern =
     (case action pattern of simple e \<Rightarrow> remdups (places_of e) | match_expr labels \<Rightarrow> [])"

subsection \<open>The graph that is matched\<close>

text \<open>
  The matcher is a template over the e-graph (\<open>gap::graph::graph_like\<close>); the e-graph
  of \<open>eqsat/core/egraph.hpp\<close> is not among the sources. The record holds the operations
  the matcher calls: \<open>graph.find(&node)\<close>, \<open>graph.eclass(handle).nodes\<close>, the node lists
  of \<open>graph.eclasses()\<close> in iteration order, \<open>node.children()\<close>, \<open>node_name(node)\<close> and
  \<open>extract_constant(node)\<close>. A node handle is the id of an e-class.
\<close>

type_synonym node_handle = nat

record 'n graph_like =
  find_node :: "'n \<Rightarrow> node_handle"
  eclass_nodes :: "node_handle \<Rightarrow> 'n list"
  eclasses :: "'n list list"
  node_children :: "'n \<Rightarrow> node_handle list"
  node_name :: "'n \<Rightarrow> string"
  extract_constant :: "'n \<Rightarrow> int option"

subsection \<open>Match results and generators\<close>

text \<open>
  Modelled from the spec: \<open>gap::dense_map\<close> is not among the sources. The bindings of a
  match are a "\<open>map<place_id, e_class_id>\<close>": a map from the index of a place to a
  handle, here the list of its entries, with \<open>find\<close>, \<open>emplace\<close> (which keeps an entry
  that is already there) and \<open>size\<close>.
\<close>

type_synonym matched_places_t = "(nat, node_handle) unordered_map"

record match_result =
  root :: node_handle
  matched_places :: matched_places_t

text \<open>
  A \<open>match_generator\<close> is a coroutine: the results it yields, in order, and the abort
  that ends it, if it is ended by one.
\<close>

type_synonym match_generator = "match_result list \<times> error option"

definition nothing :: match_generator where
  "nothing = ([], None)"

definition co_yield :: "match_result \<Rightarrow> match_generator" where
  "co_yield m = ([m], None)"

definition abort :: "string \<Rightarrow> match_generator" where
  "abort msg = ([], Some (Abort msg))"

text \<open>One generator run after another: the second is not started when the first aborts.\<close>

definition and_then :: "match_generator \<Rightarrow> match_generator \<Rightarrow> match_generator" where
  "and_then g1 g2 = (case snd g1 of None \<Rightarrow> (fst g1 @ fst g2, snd g2) | Some e \<Rightarrow> g1)"

text \<open>\<open>for (auto m : ms) co_yield body(m);\<close> over results already produced.\<close>

fun for_each :: "match_result list \<Rightarrow> (match_result \<Rightarrow> match_generator) \<Rightarrow> match_generator" where
  "for_each [] body = nothing"
| "for_each (m # ms) body = and_then (body m) (for_each ms body)"

text \<open>
  \<open>for (auto m : gen) co_yield body(m);\<close> over a generator: the body runs for each result
  as it is produced; the abort of the generator, if any, comes after its last result.
\<close>

definition for_gen :: "match_generator \<Rightarrow> (match_result \<Rightarrow> match_generator) \<Rightarrow> match_generator" where
  "for_gen gen body = and_then (for_each (fst gen) body) ([], snd gen)"

lemma for_each_cong [fundef_cong]:
  "ms = ms' \<Longrightarrow> (\<And>m. m \<in> set ms' \<Longrightarrow> body m = body' m) \<Longrightarrow> for_each ms body = for_each ms' body'"
  by (induction ms arbitrary: ms') auto

lemma for_gen_cong [fundef_cong]:
  "gen = gen' \<Longrightarrow> (\<And>m. m \<in> set (fst gen') \<Longrightarrow> body m = body' m) \<Longrightarrow>
   for_gen gen body = for_gen gen' body'"
  unfolding for_gen_def by (auto cong: for_each_cong)

subsection \<open>Matching\<close>

definition place_index :: "place_t \<Rightarrow> places_t \<Rightarrow> nat" where
  "place_index place places = length (takeWhile (\<lambda>p. p \<noteq> place) places)"

text \<open>The overloads of \<open>match\<close> for \<open>constant_t\<close>, \<open>operation_t\<close>, \<open>place_t\<close>, \<open>label_t\<close> and \<open>atom_t\<close>.\<close>

definition match_atom ::
  "'n graph_like \<Rightarrow> places_t \<Rightarrow> atom_t \<Rightarrow> 'n \<Rightarrow> matched_places_t \<Rightarrow> match_generator" where
  "match_atom graph places a node mp =
     (case a of
        constant_t c \<Rightarrow>
          if extract_constant graph node = Some c
          then co_yield \<lparr>root = find_node graph node, matched_places = mp\<rparr>
          else nothing
      | operation_t name \<Rightarrow>
          if node_name graph node = name
          then co_yield \<lparr>root = find_node graph node, matched_places = mp\<rparr>
          else nothing
      | place_t p \<Rightarrow>
          (let pid = place_index p places mod 2 ^ 32;
               handle = find_node graph node
           in if (case map_of mp pid of None \<Rightarrow> False | Some h \<Rightarrow> h \<noteq> handle) then nothing
              else co_yield \<lparr>root = handle, matched_places = emplace mp pid handle\<rparr>)
      | label_t l \<Rightarrow> abort ''not implemented match label'')"

text \<open>
  The overloads of \<open>match\<close> for \<open>simple_expr\<close> and \<open>expr_list\<close> at a node, for
  \<open>simple_expr\<close> at an e-class (given by its nodes), and \<open>match_children\<close>. In the loop
  over the heads, neither the test for an empty tail nor the comparison of the sizes
  depends on the head: with a non-empty tail of the wrong size the generator returns at
  its first head.
\<close>

function
  match_simple ::
    "'n graph_like \<Rightarrow> places_t \<Rightarrow> simple_expr \<Rightarrow> 'n \<Rightarrow> matched_places_t \<Rightarrow> match_generator"
  and match_eclass ::
    "'n graph_like \<Rightarrow> places_t \<Rightarrow> simple_expr \<Rightarrow> 'n list \<Rightarrow> matched_places_t \<Rightarrow> match_generator"
  and match_children ::
    "'n graph_like \<Rightarrow> places_t \<Rightarrow> simple_expr list \<Rightarrow> node_handle list \<Rightarrow> matched_places_t
     \<Rightarrow> match_generator"
where
  "match_simple graph places (atom a) node mp = match_atom graph places a node mp"
| "match_simple graph places (expr_list []) node mp = ([], Some IndexBeyondEnd)"
| "match_simple graph places (expr_list (front # pattern_children)) node mp =
     (let heads = match_simple graph places front node mp
      in if pattern_children = [] then heads
         else if fst heads = [] then heads
         else if length pattern_children \<noteq> length (node_children graph node) then nothing
         else for_gen heads (\<lambda>head.
                for_gen (match_children graph places pattern_children (node_children graph node)
                           (matched_places head))
                  (\<lambda>m. co_yield \<lparr>root = root head, matched_places = matched_places m\<rparr>)))"
| "match_eclass graph places expr [] mp = nothing"
| "match_eclass graph places expr (node # rest) mp =
     and_then (match_simple graph places expr node mp) (match_eclass graph places expr rest mp)"
| "match_children graph places [] handles mp = ([], Some IndexBeyondEnd)"
| "match_children graph places (front # rest) [] mp = ([], Some IndexBeyondEnd)"
| "match_children graph places (front # rest) (child # handles) mp =
     (let match_child = match_eclass graph places front (eclass_nodes graph child) mp
      in if rest = [] then match_child
         else for_gen match_child (\<lambda>m.
                match_children graph places rest handles (matched_places m)))"
  by pat_completeness auto

termination
  by (relation "inv_image (less_than <*lex*> less_than)
        (\<lambda>x. case x of
            Inl (graph, places, e, node, mp) \<Rightarrow> (size e, 0)
          | Inr (Inl (graph, places, e, enodes, mp)) \<Rightarrow> (size e, Suc (length enodes))
          | Inr (Inr (graph, places, es, handles, mp)) \<Rightarrow> (size_list size es, 0))")
    auto

text \<open>The overload of \<open>match\<close> for \<open>match_expr\<close> aborts; \<open>match_by_action\<close> visits the action.\<close>

definition match_by_action ::
  "'n graph_like \<Rightarrow> places_t \<Rightarrow> match_pattern \<Rightarrow> 'n \<Rightarrow> match_generator" where
  "match_by_action graph places pattern node =
     (case action pattern of
        simple a \<Rightarrow> match_simple graph places a node []
      | match_expr labels \<Rightarrow> abort ''not implemented match expr'')"

text \<open>The overload of \<open>match\<close> for a \<open>match_pattern\<close> at an e-class: the loop over its nodes.\<close>

fun match_pattern_eclass ::
  "'n graph_like \<Rightarrow> places_t \<Rightarrow> match_pattern \<Rightarrow> 'n list \<Rightarrow> match_generator" where
  "match_pattern_eclass graph places pattern [] = nothing"
| "match_pattern_eclass graph places pattern (node # rest) =
     and_then (match_by_action graph places pattern node)
       (match_pattern_eclass graph places pattern rest)"

text \<open>The top-level \<open>match(pattern, graph)\<close>: the loop over the e-classes.\<close>

fun match_eclasses ::
  "'n graph_like \<Rightarrow> places_t \<Rightarrow> match_pattern \<Rightarrow> 'n list list \<Rightarrow> match_generator" where
  "match_eclasses graph places pattern [] = nothing"
| "match_eclasses graph places pattern (eclass # rest) =
     and_then
       (for_gen (match_pattern_eclass graph places pattern eclass)
          (\<lambda>m. if length (matched_places m) = length places then co_yield m else nothing))
       (match_eclasses graph places pattern rest)"

definition match_graph :: "match_pattern \<Rightarrow> 'n graph_like \<Rightarrow> match_generator" where
  "match_graph pattern graph =
     (let places = gather_places pattern
      in match_eclasses graph places pattern (eclasses graph))"

subsection \<open>What a match means\<close>

text \<open>
  A pattern is matched at a node under bindings when every constant and operation of
  the pattern agrees with the node it meets, every list meets a node with as many
  children as the list has child patterns, each child pattern is matched at some node of
  the class of the corresponding child, and every occurrence of a place meets a node
  whose class is the binding of the place.
\<close>

fun matches_at ::
    "'n graph_like \<Rightarrow> places_t \<Rightarrow> matched_places_t \<Rightarrow> simple_expr \<Rightarrow> 'n \<Rightarrow> bool"
  and children_matched ::
    "'n graph_like \<Rightarrow> places_t \<Rightarrow> matched_places_t \<Rightarrow> simple_expr list \<Rightarrow> node_handle list \<Rightarrow> bool"
where
  "matches_at graph places mp (atom (constant_t c)) node = (extract_constant graph node = Some c)"
| "matches_at graph places mp (atom (operation_t name)) node = (node_name graph node = name)"
| "matches_at graph places mp (atom (place_t p)) node =
     (map_of mp (place_index p places) = Some (find_node graph node))"
| "matches_at graph places mp (atom (label_t l)) node = False"
| "matches_at graph places mp (expr_list []) node = False"
| "matches_at graph places mp (expr_list (front # pattern_children)) node =
     (matches_at graph places mp front node \<and>
      (pattern_children = [] \<or>
       children_matched graph places mp pattern_children (node_children graph node)))"
| "children_matched graph places mp [] [] = True"
| "children_matched graph places mp [] (child # handles) = False"
| "children_matched graph places mp (front # rest) [] = False"
| "children_matched graph places mp (front # rest) (child # handles) =
     (list_ex (matches_at graph places mp front) (eclass_nodes graph child) \<and>
      children_matched graph places mp rest handles)"

text \<open>
  Bindings \<open>mp'\<close> extend bindings \<open>mp\<close> when they keep every entry of \<open>mp\<close>; bindings
  bind a list of places when each of them has an entry.
\<close>

definition extends :: "matched_places_t \<Rightarrow> matched_places_t \<Rightarrow> bool" where
  "extends mp mp' = (\<forall>k h. map_of mp k = Some h \<longrightarrow> map_of mp' k = Some h)"

definition binds :: "places_t \<Rightarrow> matched_places_t \<Rightarrow> place_t list \<Rightarrow> bool" where
  "binds places mp ps = (\<forall>p \<in> set ps. \<exists>h. map_of mp (place_index p places) = Some h)"


subsection \<open>An example graph and pattern\<close>

text \<open>
  The nodes \<open>x\<close> (0), \<open>y\<close> (1), \<open>add(x, x)\<close> (2) and \<open>add(x, y)\<close> (3), each in a class of
  its own with its number as id, and the pattern \<open>(add ?a ?a)\<close>.
\<close>

definition four_nodes :: "nat graph_like" where
  "four_nodes =
     \<lparr>find_node = (\<lambda>n. n),
      eclass_nodes = (\<lambda>h. [h]),
      eclasses = [[0], [1], [2], [3]],
      node_children = (\<lambda>n. if n = 2 then [0, 0] else if n = 3 then [0, 1] else []),
      node_name = (\<lambda>n. if n = 0 then ''x'' else if n = 1 then ''y'' else ''add''),
      extract_constant = (\<lambda>n. None)\<rparr>"

definition add_a_a :: simple_expr where
  "add_a_a = expr_list [atom (operation_t ''add''), atom (place_t ''a''), atom (place_t ''a'')]"

section \<open>Example inputs\<close>

definition only_length_ctx :: ExtractedCtx where
  "only_length_ctx =
     \<lparr>generated_name = ''generated_decoder_prefix_7'', encoding_size_in_bytes = 1,
      decodeConditions =
        [\<lparr>bits = replicate 112 (CHR ''0''), low_bit_inc = 8, high_bit_exc = 120\<rparr>]\<rparr>"


definition no_flags :: Flags where
  "no_flags =
     \<lparr>FLAGS_arch = [], FLAGS_os = [], FLAGS_binary_in = [], FLAGS_ir_in = [], FLAGS_ir_out = [],
      FLAGS_dot_out = [], FLAGS_python_out = [], FLAGS_smt_out = [], FLAGS_json_out = []\<rparr>"

definition binary_flags :: Flags where
  "binary_flags = no_flags\<lparr>FLAGS_arch := ''amd64'', FLAGS_os := ''linux'', FLAGS_binary_in := ''a.bin''\<rparr>"

definition ir_flags :: Flags where
  "ir_flags = no_flags\<lparr>FLAGS_ir_in := ''-'', FLAGS_json_out := ''out.json''\<rparr>"

definition failing :: "unit Collaborators" where
  "failing =
     \<lparr>CreateFromInstructions = (\<lambda>arch os path. None), Deserialize = (\<lambda>path. None),
      ConvertPopCountToParity = id, StrengthReducePopulationCount = id\<rparr>"

definition working :: "unit Collaborators" where
  "working =
     \<lparr>CreateFromInstructions = (\<lambda>arch os path. Some ()), Deserialize = (\<lambda>path. Some ()),
      ConvertPopCountToParity = id, StrengthReducePopulationCount = id\<rparr>"


definition two_regions :: region_t where
  "two_regions = [(2, 3), (7, 1)]"

definition two_operands :: Instruction where
  "two_operands =
     \<lparr>operands =
        [\<lparr>immediate = None, reg = Some [(7, 1)], address = None, shift = None\<rparr>,
         \<lparr>immediate = Some [(2, 3)], reg = None, address = None, shift = None\<rparr>]\<rparr>"

text \<open>The length delimiter of a one-byte encoding.\<close>

definition one_byte :: DecodeCondition where
  "one_byte = \<lparr>bits = replicate 112 (CHR ''0''), low_bit_inc = 8, high_bit_exc = 120\<rparr>"

definition low_bits :: "string \<Rightarrow> DecodeCondition" where
  "low_bits s = \<lparr>bits = s, low_bit_inc = 0, high_bit_exc = of_nat (length s)\<rparr>"

text \<open>A context whose two conditions on bits 0 to 7 disagree on bit 0.\<close>

definition conflicting_vi :: VerifyInstruction where
  "conflicting_vi =
     \<lparr>vi_id = 12, collected = [low_bits ''00000000'', low_bits ''10000000'', one_byte]\<rparr>"

definition plain_vi :: VerifyInstruction where
  "plain_vi = \<lparr>vi_id = 3, collected = [low_bits ''00001001'', one_byte]\<rparr>"

definition endless_vi :: VerifyInstruction where
  "endless_vi = \<lparr>vi_id = 4, collected = [low_bits ''00001001'']\<rparr>"

definition overlong_vi :: VerifyInstruction where
  "overlong_vi =
     \<lparr>vi_id = 5, collected = [\<lparr>bits = [], low_bit_inc = 128, high_bit_exc = 120\<rparr>]\<rparr>"

text \<open>
  Four contexts that constrain bits 0 to 2; bit 0 separates context 1 from the other
  three, bit 1 separates contexts 0 and 1 from contexts 2 and 3.
\<close>

definition four_ctxs :: "ExtractedCtx list" where
  "four_ctxs =
     [\<lparr>generated_name = ''generated_decoder_prefix_0'', encoding_size_in_bytes = 1,
       decodeConditions = [low_bits ''100'', one_byte]\<rparr>,
      \<lparr>generated_name = ''generated_decoder_prefix_1'', encoding_size_in_bytes = 1,
       decodeConditions = [low_bits ''000'', one_byte]\<rparr>,
      \<lparr>generated_name = ''generated_decoder_prefix_2'', encoding_size_in_bytes = 1,
       decodeConditions = [low_bits ''110'', one_byte]\<rparr>,
      \<lparr>generated_name = ''generated_decoder_prefix_3'', encoding_size_in_bytes = 1,
       decodeConditions = [low_bits ''111'', one_byte]\<rparr>]"

definition four_requirements :: "Decode_Requires_Group list" where
  "four_requirements = projr (get_decode_requirements_per_index four_ctxs [0, 1, 2, 3] [])"

definition test_bit :: "nat \<Rightarrow> Expr" where
  "test_bit i =
     BitwiseAnd (IndexVar (Var ''bytes'' []) (i div 8)) (Parenthesis (Shfl (IntE 1) (IntE (int (i mod 8)))))"

definition call :: "nat \<Rightarrow> Expr" where
  "call k = call_ctx (four_ctxs ! k)"

text \<open>
  What each of the four contexts requires of bit \<open>i\<close>, the group of bit \<open>i\<close> for the
  contexts \<open>to_split\<close>, and the index chosen among the first three groups.
\<close>

definition four_val :: "nat \<Rightarrow> nat \<Rightarrow> InputType" where
  "four_val i p =
     (if i = 0 then (if p = 1 then zero else one)
      else if i = 1 then (if p = 0 \<or> p = 1 then zero else one)
      else if i = 2 then (if p = 3 then one else zero)
      else ignore)"

definition four_group :: "nat list \<Rightarrow> (nat \<times> int) list \<Rightarrow> nat \<Rightarrow> Decode_Requires_Group" where
  "four_group to_split already_chosen_bits i =
     (if list_ex (\<lambda>p. fst p = i) already_chosen_bits then empty_group
      else \<lparr>zeros = filter (\<lambda>p. four_val i p = zero) to_split,
            ones = filter (\<lambda>p. four_val i p = one) to_split,
            ignores = filter (\<lambda>p. four_val i p = ignore) to_split\<rparr>)"

definition four_choice :: "nat list \<Rightarrow> (nat \<times> int) list \<Rightarrow> nat" where
  "four_choice to_split already_chosen_bits =
     max_element [four_group to_split already_chosen_bits 0, four_group to_split already_chosen_bits 1,
                  four_group to_split already_chosen_bits 2]"


text \<open>
  An e-graph over symbols: the leaves \<open>a\<close> and \<open>b\<close> are added, then \<open>f(a)\<close> and \<open>f(b)\<close>,
  then the classes of \<open>a\<close> and \<open>b\<close> are merged and the graph is rebuilt. The states after
  each step are written out.
\<close>

definition leaf :: "string \<Rightarrow> string ENode" where
  "leaf s = \<lparr>storage = s, children = []\<rparr>"

definition unary :: "string \<Rightarrow> Id \<Rightarrow> string ENode" where
  "unary s c = \<lparr>storage = s, children = [c]\<rparr>"


definition eg_fb :: "string EGraph" where
  "eg_fb =
     \<lparr>m_nodes = [leaf ''a'', leaf ''b'', unary ''f'' 0, unary ''f'' 1],
      m_unions = \<lparr>uf_parents = [0, 1, 2, 3], uf_ranks = [0, 0, 0, 0]\<rparr>,
      m_classes =
        [(0, \<lparr>nodes = [0], parents = [2]\<rparr>), (1, \<lparr>nodes = [1], parents = [3]\<rparr>),
         (2, \<lparr>nodes = [2], parents = []\<rparr>), (3, \<lparr>nodes = [3], parents = []\<rparr>)],
      m_ids = [(0, 0), (1, 1), (2, 2), (3, 3)],
      m_pending = []\<rparr>"

definition eg_merged :: "string EGraph" where
  "eg_merged =
     \<lparr>m_nodes = [leaf ''a'', leaf ''b'', unary ''f'' 0, unary ''f'' 1],
      m_unions = \<lparr>uf_parents = [0, 0, 2, 3], uf_ranks = [1, 0, 0, 0]\<rparr>,
      m_classes =
        [(0, \<lparr>nodes = [0, 1], parents = [2, 3]\<rparr>),
         (2, \<lparr>nodes = [2], parents = []\<rparr>), (3, \<lparr>nodes = [3], parents = []\<rparr>)],
      m_ids = [(0, 0), (1, 1), (2, 2), (3, 3)],
      m_pending = [0]\<rparr>"

definition eg_rebuilt :: "string EGraph" where
  "eg_rebuilt =
     \<lparr>m_nodes = [leaf ''a'', leaf ''b'', unary ''f'' 0, unary ''f'' 1],
      m_unions = \<lparr>uf_parents = [0, 0, 2, 3], uf_ranks = [1, 0, 0, 0]\<rparr>,
      m_classes =
        [(0, \<lparr>nodes = [0, 1], parents = [2, 3]\<rparr>),
         (2, \<lparr>nodes = [2], parents = []\<rparr>), (3, \<lparr>nodes = [3], parents = []\<rparr>)],
      m_ids = [(0, 0), (1, 0), (2, 2), (3, 3)],
      m_pending = []\<rparr>"

text \<open>The calls \<open>add\<close>, \<open>merge\<close> and \<open>rebuild\<close> of a client, run in order.\<close>

datatype 'a egraph_call = Add "'a ENode" | Merge Id Id | Rebuild

fun run :: "'a egraph_call list \<Rightarrow> 'a EGraph \<Rightarrow> error + 'a EGraph" where
  "run [] g = Inr g"
| "run (Add node # calls) g =
     (case add g node of Inl e \<Rightarrow> Inl e | Inr (cid, node_ptr, g') \<Rightarrow> run calls g')"
| "run (Merge a b # calls) g =
     (case merge g a b of Inl e \<Rightarrow> Inl e | Inr (cid, g') \<Rightarrow> run calls g')"
| "run (Rebuild # calls) g =
     (case rebuild g of Inl e \<Rightarrow> Inl e | Inr g' \<Rightarrow> run calls g')"


text \<open>
  The context of \<open>conflicting_vi\<close>, and the iteration order of its conditions after one
  more copy of the first of them is inserted and the container has rehashed.
\<close>

definition conflicting_ctx :: ExtractedCtx where
  "conflicting_ctx =
     \<lparr>generated_name = ''generated_decoder_prefix_12'', encoding_size_in_bytes = 1,
      decodeConditions = [low_bits ''00000000'', low_bits ''10000000'', one_byte]\<rparr>"

definition conflicting_rehashed :: "DecodeCondition list" where
  "conflicting_rehashed =
     [low_bits ''10000000'', low_bits ''00000000'', low_bits ''00000000'', one_byte]"

definition plain_ctx :: ExtractedCtx where
  "plain_ctx =
     \<lparr>generated_name = ''generated_decoder_prefix_3'', encoding_size_in_bytes = 1,
      decodeConditions = collected plain_vi\<rparr>"

definition plain_rehashed :: "DecodeCondition list" where
  "plain_rehashed = [one_byte, low_bits ''00001001'', low_bits ''00001001'']"

section \<open>Properties of the decoder's bit patterns\<close>










section \<open>The match function of a context without constrained bits\<close>

lemma body_of_two_ignored_halves:
  "contains_only_ignore_bit (byte (fst args)) \<Longrightarrow> contains_only_ignore_bit (byte (snd args)) \<Longrightarrow>
   get_decode_context_function_body args n = Inl IndexBeyondEnd"
  by (simp add: get_decode_context_function_body_def at_index_def)

text \<open>
  C5: a context whose only decode condition is the length delimiter \<open>Extract(8, 120)\<close>
  constrains no bit, both 64-bit halves are entirely \<open>ignore\<close>, \<open>compare_exprs\<close> stays
  empty, and \<open>get_decode_context_function_body\<close> reads \<open>compare_exprs[0]\<close>: the code emits
  no function body instead of one that returns the encoding length.
\<close>

theorem C5_no_body_for_unconstrained_context:
  "print_context_decoder_function only_length_ctx = Inl IndexBeyondEnd"
  by code_simp

section \<open>Termination of the selection tree\<close>

lemma mapM_Inr:
  "mapM f xs = Inr ys \<Longrightarrow> length ys = length xs \<and> (\<forall>k < length xs. f (xs ! k) = Inr (ys ! k))"
proof (induction xs arbitrary: ys)
  case Nil
  then show ?case by simp
next
  case (Cons x xs)
  then obtain y ys' where y: "f x = Inr y" "mapM f xs = Inr ys'" "ys = y # ys'"
    by (auto split: sum.splits)
  with Cons.IH[OF y(2)] show ?case by (auto simp: nth_Cons split: nat.splits)
qed

lemma classify_chosen:
  "list_ex (\<lambda>p. fst p = i) already_chosen_bits \<Longrightarrow>
   foldM (classify extracted_ctxs already_chosen_bits i) to_split g = Inr g"
  by (induction to_split) (simp_all add: classify_def)

lemma requirements_Inr:
  assumes "get_decode_requirements_per_index extracted_ctxs to_split already_chosen_bits = Inr indice_values"
  shows "length indice_values = 120"
    and "i < 120 \<Longrightarrow> i \<in> fst ` set already_chosen_bits \<Longrightarrow> indice_values ! i = empty_group"
proof -
  note m = mapM_Inr[OF assms[unfolded get_decode_requirements_per_index_def]]
  from m show "length indice_values = 120" by simp
  assume i: "i < 120" "i \<in> fst ` set already_chosen_bits"
  then have "list_ex (\<lambda>p. fst p = i) already_chosen_bits"
    by (auto simp: list_ex_iff)
  from classify_chosen[OF this] m i(1) show "indice_values ! i = empty_group"
    by auto
qed

lemma max_element_loop_less:
  "largest < k \<Longrightarrow> max_element_loop largest g k xs < k + length xs"
proof (induction xs arbitrary: largest g k)
  case Nil
  then show ?case by simp
next
  case (Cons x xs)
  have "max_element_loop k x (Suc k) xs < Suc k + length xs"
    by (rule Cons.IH) simp
  moreover have "max_element_loop largest g (Suc k) xs < Suc k + length xs"
    by (rule Cons.IH) (use Cons.prems in simp)
  ultimately show ?case by simp
qed

lemma max_element_less: "gs \<noteq> [] \<Longrightarrow> max_element gs < length gs"
  using max_element_loop_less[of 0 1] by (cases gs) (auto simp: max_element_def)

lemma untested_less:
  assumes "get_decode_requirements_per_index extracted_ctxs to_split already_chosen_bits = Inr indice_values"
    and "\<not> (ones (indice_values ! max_element indice_values) @ ignores (indice_values ! max_element indice_values) = []
           \<and> zeros (indice_values ! max_element indice_values) @ ignores (indice_values ! max_element indice_values) = [])"
  shows "untested (already_chosen_bits @ [(max_element indice_values, depth)]) < untested already_chosen_bits"
proof -
  let ?ci = "max_element indice_values"
  have len: "length indice_values = 120" by (rule requirements_Inr(1)[OF assms(1)])
  have "indice_values \<noteq> []" using len by auto
  from max_element_less[OF this] len have ci: "?ci < 120" by simp
  have "?ci \<notin> fst ` set already_chosen_bits"
  proof
    assume "?ci \<in> fst ` set already_chosen_bits"
    from requirements_Inr(2)[OF assms(1) ci this] assms(2) show False
      by (simp add: empty_group_def)
  qed
  with ci have "{..<120} - fst ` set (already_chosen_bits @ [(?ci, depth)])
                \<subset> {..<120} - fst ` set already_chosen_bits"
    by auto
  then show ?thesis unfolding untested_def by (intro psubset_card_mono) auto
qed

termination generate_decoder_selection_tree
proof (relation "measure (\<lambda>(biv, ctxs, to_split, chosen, depth, md). untested chosen)", goal_cases)
  case 1
  then show ?case by simp
next
  case (2 biv ctxs to_split chosen depth md x1 iv x2 x3 x4 x5)
  have "untested x3 < untested chosen"
    unfolding 2(5,6) by (rule untested_less[OF 2(4)]) (use 2 in blast)
  then show ?case by simp
next
  case (3 biv ctxs to_split chosen depth md x1 iv x2 x3 x4 x5)
  have "untested x3 < untested chosen"
    unfolding 3(5,6) by (rule untested_less[OF 3(4)]) (use 3 in blast)
  then show ?case by simp
qed

declare generate_decoder_selection_tree.simps [simp del]



section \<open>The bit chosen at the root of a selection tree\<close>

lemma mapM_map: "(\<And>x. x \<in> set xs \<Longrightarrow> f x = Inr (g x)) \<Longrightarrow> mapM f xs = Inr (map g xs)"
  by (induction xs) simp_all

lemma classify_partition:
  assumes "\<And>p. p \<in> set to_split \<Longrightarrow>
             p < length extracted_ctxs \<and>
             foldM (require i) (decodeConditions (extracted_ctxs ! p)) ignore = Inr (v p)"
    and "\<not> list_ex (\<lambda>p. fst p = i) already_chosen_bits"
  shows "foldM (classify extracted_ctxs already_chosen_bits i) to_split g =
         Inr \<lparr>zeros = zeros g @ filter (\<lambda>p. v p = zero) to_split,
              ones = ones g @ filter (\<lambda>p. v p = one) to_split,
              ignores = ignores g @ filter (\<lambda>p. v p = ignore) to_split\<rparr>"
  using assms(1)
proof (induction to_split arbitrary: g)
  case Nil
  then show ?case by simp
next
  case (Cons p ps)
  have p: "p < length extracted_ctxs"
    "foldM (require i) (decodeConditions (extracted_ctxs ! p)) ignore = Inr (v p)"
    using Cons.prems[of p] by simp_all
  have step: "classify extracted_ctxs already_chosen_bits i p g = Inr (push_back_ctx (v p) p g)"
    using p assms(2) by (simp add: classify_def at_index_def)
  have rest: "foldM (classify extracted_ctxs already_chosen_bits i) ps (push_back_ctx (v p) p g) =
         Inr \<lparr>zeros = zeros (push_back_ctx (v p) p g) @ filter (\<lambda>p. v p = zero) ps,
              ones = ones (push_back_ctx (v p) p g) @ filter (\<lambda>p. v p = one) ps,
              ignores = ignores (push_back_ctx (v p) p g) @ filter (\<lambda>p. v p = ignore) ps\<rparr>"
    by (rule Cons.IH) (use Cons.prems in simp)
  show ?case
    using rest by (cases "v p") (simp_all add: step push_back_ctx_def)
qed

lemma require_one_byte: "require i one_byte val = Inr val"
  by (simp add: require_def one_byte_def high_inc_def)

lemma require_low_bits:
  "length s = 3 \<Longrightarrow>
   require i (low_bits s) val = Inr (if i < 3 then (if s ! i = CHR ''0'' then zero else one) else val)"
  by (auto simp: require_def low_bits_def high_inc_def low_def bits_at_def unat_minus_one)

lemma four_require:
  "p < 4 \<Longrightarrow> foldM (require i) (decodeConditions (four_ctxs ! p)) ignore = Inr (four_val i p)"
proof -
  assume "p < 4"
  then consider "p = 0" | "p = 1" | "p = 2" | "p = 3" by linarith
  then show ?thesis
    by cases (auto simp: four_ctxs_def require_low_bits require_one_byte four_val_def
        less_Suc_eq numeral_3_eq_3)
qed

lemma four_requirements_per_index:
  assumes "set to_split \<subseteq> {0, 1, 2, 3}"
  shows "get_decode_requirements_per_index four_ctxs to_split already_chosen_bits =
         Inr (map (four_group to_split already_chosen_bits) [0..<120])"
  unfolding get_decode_requirements_per_index_def
proof (rule mapM_map)
  fix i
  show "foldM (classify four_ctxs already_chosen_bits i) to_split empty_group =
        Inr (four_group to_split already_chosen_bits i)"
  proof (cases "list_ex (\<lambda>p. fst p = i) already_chosen_bits")
    case True
    then show ?thesis by (simp add: classify_chosen four_group_def)
  next
    case False
    have "foldM (classify four_ctxs already_chosen_bits i) to_split empty_group =
         Inr \<lparr>zeros = zeros empty_group @ filter (\<lambda>p. four_val i p = zero) to_split,
              ones = ones empty_group @ filter (\<lambda>p. four_val i p = one) to_split,
              ignores = ignores empty_group @ filter (\<lambda>p. four_val i p = ignore) to_split\<rparr>"
    proof (rule classify_partition[OF _ False])
      fix p assume "p \<in> set to_split"
      with assms have "p < 4" by auto
      then show "p < length four_ctxs \<and>
             foldM (require i) (decodeConditions (four_ctxs ! p)) ignore = Inr (four_val i p)"
        using four_require[of p i] by (simp add: four_ctxs_def)
    qed
    then show ?thesis using False by (simp add: four_group_def empty_group_def)
  qed
qed

lemma max_element_loop_no_greater:
  "(\<And>x. x \<in> set xs \<Longrightarrow> zeros x = [] \<or> ones x = []) \<Longrightarrow> max_element_loop largest g k xs = largest"
proof (induction xs arbitrary: k)
  case Nil
  then show ?case by simp
next
  case (Cons x xs)
  have "zeros x = [] \<or> ones x = []" using Cons.prems by simp
  then have "length (std_min (zeros x) (ones x)) = 0"
    by (cases "zeros x"; cases "ones x") (auto simp: std_min_def)
  then have "\<not> group_less g x" by (simp add: group_less_def Let_def)
  then show ?case using Cons by simp
qed

lemma four_group_beyond: "3 \<le> i \<Longrightarrow> zeros (four_group ts ch i) = []"
  by (simp add: four_group_def four_val_def empty_group_def)

lemma upt_120: "[0..<120] = [0, 1, 2] @ [3..<120]"
  by code_simp


lemma max_element_four:
  "max_element (map (four_group ts ch) [0..<120]) = four_choice ts ch"
proof -
  have tail: "max_element_loop largest g k (map (four_group ts ch) [3..<120]) = largest" for largest g k
    by (rule max_element_loop_no_greater) (auto simp: four_group_beyond)
  have "map (four_group ts ch) [0..<120] =
        four_group ts ch 0 # ([four_group ts ch 1, four_group ts ch 2] @ map (four_group ts ch) [3..<120])"
    unfolding upt_120 by (simp del: upt_rec_numeral)
  then show ?thesis
    by (simp only: four_choice_def max_element_def list.case max_element_loop.simps tail append_Cons
        append_Nil split: if_split)
qed

lemma nth_four: "i < 120 \<Longrightarrow> map f [0..<120] ! i = f i"
  by (simp del: upt_rec_numeral)

lemma four_root: "four_requirements = map (four_group [0, 1, 2, 3] []) [0..<120]"
proof -
  have "get_decode_requirements_per_index four_ctxs [0, 1, 2, 3] [] =
    Inr (map (four_group [0, 1, 2, 3] []) [0..<120])"
    by (rule four_requirements_per_index) simp
  then show ?thesis by (simp only: four_requirements_def sum.sel)
qed

lemma four_root_groups:
  "four_group [0, 1, 2, 3] [] 0 = \<lparr>zeros = [1], ones = [0, 2, 3], ignores = []\<rparr>"
  "four_group [0, 1, 2, 3] [] 1 = \<lparr>zeros = [0, 1], ones = [2, 3], ignores = []\<rparr>"
  "four_group [0, 1, 2, 3] [] 2 = \<lparr>zeros = [0, 1, 2], ones = [3], ignores = []\<rparr>"
  by (simp_all add: four_group_def four_val_def)

lemma four_leaf:
  "k < 4 \<Longrightarrow>
   generate_decoder_selection_tree biv four_ctxs [k] ch depth md =
   Inr (Return (call k), if md < depth then depth else md)"
  by (subst generate_decoder_selection_tree.simps)
    (simp add: at_index_def call_def four_ctxs_def Let_def)

lemma four_node:
  assumes "set ts \<subseteq> {0, 1, 2, 3}" and "ts \<noteq> []" and "length ts \<noteq> 1"
    and "four_choice ts ch = ci"
    and "ci < 120"
    and "four_group ts ch ci = \<lparr>zeros = zs, ones = os, ignores = []\<rparr>" and "os \<noteq> []"
  shows "generate_decoder_selection_tree biv four_ctxs ts ch depth md =
    (case generate_decoder_selection_tree biv four_ctxs os (ch @ [(ci, depth)]) (depth + 1)
            (if md < depth then depth else md) of
       Inl e \<Rightarrow> Inl e
     | Inr (lhs_split, max_depth1) \<Rightarrow>
         (case generate_decoder_selection_tree biv four_ctxs zs (ch @ [(ci, depth)]) (depth + 1)
                 max_depth1 of
            Inl e \<Rightarrow> Inl e
          | Inr (rhs_split, max_depth2) \<Rightarrow>
              Inr (IfElse (BitwiseAnd (IndexVar (Var biv []) (ci div 8))
                     (Parenthesis (Shfl (IntE 1) (IntE (int (ci mod 8))))))
                   lhs_split rhs_split, max_depth2)))"
proof -
  have len: "length ts \<noteq> Suc 0" using assms(3) by simp
  have g: "map (four_group ts ch) [0..<120] ! ci = \<lparr>zeros = zs, ones = os, ignores = []\<rparr>"
    using assms(5,6) by (simp only: nth_four)
  show ?thesis
    apply (subst generate_decoder_selection_tree.simps)
    unfolding Let_def four_requirements_per_index[OF assms(1)] sum.case max_element_four assms(4) g
      Decode_Requires_Group.select_convs append_Nil2
    using assms(2,7) len by simp
qed

text \<open>
  C3: for the four example contexts the groups of bits 0 and 1 are
  \<open>zeros = [1], ones = [0, 2, 3]\<close> and \<open>zeros = [0, 1], ones = [2, 3]\<close>. The score
  \<open>min(|zeros|, |ones|)\<close> is 1 at bit 0 and 2 at bit 1, so bit 0 does not maximize it; yet
  \<open>std::max_element\<close> with the source's \<open>operator<\<close> returns index 0, and the root of
  the generated tree tests bit 0. The operator takes \<open>std::min\<close> of the two vectors, which
  compares them lexicographically, and then the size of the vector it gets.
\<close>

theorem C3_root_tests_bit_without_maximal_score:
  "get_decode_requirements_per_index four_ctxs [0, 1, 2, 3] [] = Inr four_requirements
   \<and> max_element four_requirements = 0
   \<and> min_score (four_requirements ! 0) = 1
   \<and> min_score (four_requirements ! 1) = 2
   \<and> generate_decoder_selection_tree ''bytes'' four_ctxs [0, 1, 2, 3] [] 0 0 =
       Inr (IfElse (test_bit 0)
              (IfElse (test_bit 2) (Return (call 3))
                 (IfElse (test_bit 1) (Return (call 2)) (Return (call 0))))
              (Return (call 1)), 3)"
proof -
  have req: "get_decode_requirements_per_index four_ctxs [0, 1, 2, 3] [] = Inr four_requirements"
    unfolding four_root by (rule four_requirements_per_index) simp
  have "max_element four_requirements = 0"
    unfolding four_root max_element_four
    by (simp add: four_choice_def four_group_def four_val_def max_element_def group_less_def std_min_def)
  moreover have "four_requirements ! 0 = four_group [0, 1, 2, 3] [] 0"
    "four_requirements ! 1 = four_group [0, 1, 2, 3] [] 1"
    unfolding four_root by (rule nth_four, simp)+
  then have "min_score (four_requirements ! 0) = 1 \<and> min_score (four_requirements ! 1) = 2"
    by (simp add: four_group_def four_val_def min_score_def)
  moreover have B: "generate_decoder_selection_tree ''bytes'' four_ctxs [0, 2] [(0, 0), (2, 1)] 2 2 =
      Inr (IfElse (test_bit 1) (Return (call 2)) (Return (call 0)), 3)"
    by (subst four_node[where ci = 1 and zs = "[0]" and os = "[2]"])
      (simp_all add: four_leaf test_bit_def four_choice_def four_group_def four_val_def max_element_def
        group_less_def std_min_def empty_group_def)
  have A: "generate_decoder_selection_tree ''bytes'' four_ctxs [0, 2, 3] [(0, 0)] 1 0 =
      Inr (IfElse (test_bit 2) (Return (call 3))
             (IfElse (test_bit 1) (Return (call 2)) (Return (call 0))), 3)"
    by (subst four_node[where ci = 2 and zs = "[0, 2]" and os = "[3]"])
      (simp_all add: four_leaf B test_bit_def four_choice_def four_group_def four_val_def max_element_def
        group_less_def std_min_def empty_group_def)
  have "generate_decoder_selection_tree ''bytes'' four_ctxs [0, 1, 2, 3] [] 0 0 =
       Inr (IfElse (test_bit 0)
              (IfElse (test_bit 2) (Return (call 3))
                 (IfElse (test_bit 1) (Return (call 2)) (Return (call 0))))
              (Return (call 1)), 3)"
    by (subst four_node[where ci = 0 and zs = "[1]" and os = "[0, 2, 3]"])
      (simp_all add: four_leaf A test_bit_def four_choice_def four_group_def four_val_def max_element_def
        group_less_def std_min_def empty_group_def)
  ultimately show ?thesis using req by simp
qed

section \<open>Duplicate decode conditions\<close>

subsection \<open>A copy read next to the condition it copies\<close>

lemma foldM_append:
  "foldM f (xs @ ys) s = (case foldM f xs s of Inl e \<Rightarrow> Inl e | Inr s' \<Rightarrow> foldM f ys s')"
  by (induction xs arbitrary: s) (auto split: sum.splits)

lemma foldM_duplicate:
  assumes "\<And>s s'. f d s = Inr s' \<Longrightarrow> f d s' = Inr s'"
  shows "foldM f (xs @ d # d # ys) s = foldM f (xs @ d # ys) s"
proof (cases "foldM f xs s")
  case (Inl e)
  then show ?thesis by (simp add: foldM_append)
next
  case (Inr s1)
  show ?thesis
  proof (cases "f d s1")
    case (Inl e)
    with Inr show ?thesis by (simp add: foldM_append)
  next
    case (Inr s2)
    with assms[OF Inr] \<open>foldM f xs s = Inr s1\<close> show ?thesis by (simp add: foldM_append)
  qed
qed

lemma foldM_stable:
  assumes "\<And>d s s2. f c s = Inr s \<Longrightarrow> f d s = Inr s2 \<Longrightarrow> f c s2 = Inr s2"
  shows "f c s = Inr s \<Longrightarrow> foldM f ds s = Inr s' \<Longrightarrow> f c s' = Inr s'"
proof (induction ds arbitrary: s)
  case Nil
  then show ?case by simp
next
  case (Cons d ds)
  from Cons.prems(2) obtain s2 where s2: "f d s = Inr s2" "foldM f ds s2 = Inr s'"
    by (auto split: sum.splits)
  from assms[OF Cons.prems(1) s2(1)] have "f c s2 = Inr s2" .
  from Cons.IH[OF this s2(2)] show ?case .
qed

lemma foldM_idempotent:
  assumes idem: "\<And>c s s'. f c s = Inr s' \<Longrightarrow> f c s' = Inr s'"
    and stable: "\<And>c d s s2. f c s = Inr s \<Longrightarrow> f d s = Inr s2 \<Longrightarrow> f c s2 = Inr s2"
  shows "foldM f cs s = Inr s' \<Longrightarrow> foldM f cs s' = Inr s'"
proof (induction cs arbitrary: s)
  case Nil
  then show ?case by simp
next
  case (Cons c cs)
  from Cons.prems obtain s1 where s1: "f c s = Inr s1" "foldM f cs s1 = Inr s'"
    by (auto split: sum.splits)
  have "f c s1 = Inr s1" by (rule idem[OF s1(1)])
  then have "f c s' = Inr s'"
    using foldM_stable[of f c s1 cs s'] stable s1(2) by blast
  moreover have "foldM f cs s' = Inr s'" by (rule Cons.IH[OF s1(2)])
  ultimately show ?case by simp
qed

lemma set_val_idempotent: "set_val n i c val = Inr val' \<Longrightarrow> set_val n i c val' = Inr val'"
  by (auto simp: set_val_def Let_def split: if_splits sum.splits)

lemma set_val_stable:
  "set_val n i c val = Inr val \<Longrightarrow> set_val n i d val = Inr val2 \<Longrightarrow> set_val n i c val2 = Inr val2"
  by (cases "c = d") (auto simp: set_val_def Let_def list_update_swap split: if_splits sum.splits)

lemma apply_condition_idempotent:
  "apply_condition i n val = Inr val' \<Longrightarrow> apply_condition i n val' = Inr val'"
  unfolding apply_condition_def
  by (auto split: if_splits intro: foldM_idempotent[OF set_val_idempotent set_val_stable])

lemma require_idempotent: "require i n val = Inr val' \<Longrightarrow> require i n val' = Inr val'"
  by (auto simp: require_def split: if_splits sum.splits)

lemma input_check_duplicate: "input_check (xs @ d # d # ys) i = input_check (xs @ d # ys) i"
  unfolding input_check_def by (rule foldM_duplicate) (rule apply_condition_idempotent)

lemma classify_duplicate:
  "classify (ctxs[k := c\<lparr>decodeConditions := xs @ d # d # ys\<rparr>]) chosen i p g =
   classify (ctxs[k := c\<lparr>decodeConditions := xs @ d # ys\<rparr>]) chosen i p g"
proof -
  have "foldM (require i) (xs @ d # d # ys) ignore = foldM (require i) (xs @ d # ys) ignore"
    by (rule foldM_duplicate) (rule require_idempotent)
  then show ?thesis
    by (cases "p = k") (auto simp: classify_def at_index_def)
qed

subsection \<open>Conditions read in another order\<close>

lemma with_copy_set:
  assumes "with_copy d xs ys"
  shows "set ys = set xs"
proof -
  from assms have d: "d \<in> set xs"
    and cnt: "\<And>x. x \<in> set ys \<union> set xs \<Longrightarrow> count_list ys x = count_list (d # xs) x"
    by (auto simp: with_copy_def list_all_iff)
  show ?thesis
  proof (intro equalityI subsetI)
    fix x assume x: "x \<in> set ys"
    then have "count_list ys x \<noteq> 0" by (simp add: count_list_0_iff)
    with cnt[of x] x have "count_list (d # xs) x \<noteq> 0" by simp
    then have "x \<in> set (d # xs)" by (metis count_list_0_iff)
    with d show "x \<in> set xs" by auto
  next
    fix x assume x: "x \<in> set xs"
    then have "x \<in> set (d # xs)" by simp
    then have "count_list (d # xs) x \<noteq> 0" by (metis count_list_0_iff)
    with cnt[of x] x have "count_list ys x \<noteq> 0" by simp
    then show "x \<in> set ys" by (metis count_list_0_iff)
  qed
qed

lemma agreeD:
  assumes "agree conds" "n \<in> set conds" "n' \<in> set conds" "i < 128"
    "constrains_bit n i" "constrains_bit n' i"
  shows "bits_at (bits n) (i - low n) = bits_at (bits n') (i - low n')"
proof -
  have "i \<in> set [0..<128]" using assms(4) by simp
  from assms(1)[unfolded agree_def list_all_iff, rule_format, OF assms(2,3) this] assms(5,6)
  show ?thesis by simp
qed

subsection \<open>The requirement of one bit\<close>

lemma require_constrains:
  "require i n val =
     (if constrains_bit n i
      then (case bits_at (bits n) (i - low n) of
              Inl e \<Rightarrow> Inl e
            | Inr ch \<Rightarrow> Inr (if ch = CHR ''0'' then zero else one))
      else Inr val)"
  by (auto simp: require_def constrains_bit_def)

lemma foldM_require_find:
  assumes "\<And>n n'. n \<in> set conds \<Longrightarrow> n' \<in> set conds \<Longrightarrow> constrains_bit n i \<Longrightarrow>
             constrains_bit n' i \<Longrightarrow> bits_at (bits n) (i - low n) = bits_at (bits n') (i - low n')"
  shows "foldM (require i) conds val =
           (case find (\<lambda>n. constrains_bit n i) conds of
              None \<Rightarrow> Inr val
            | Some n \<Rightarrow> require i n val)"
  using assms
proof (induction conds arbitrary: val)
  case Nil
  then show ?case by simp
next
  case (Cons n conds)
  have IH: "foldM (require i) conds v =
      (case find (\<lambda>n. constrains_bit n i) conds of None \<Rightarrow> Inr v | Some n \<Rightarrow> require i n v)" for v
    by (rule Cons.IH) (rule Cons.prems; simp)
  show ?case
  proof (cases "constrains_bit n i")
    case False
    then have "require i n val = Inr val" by (simp add: require_constrains)
    with False show ?thesis by (simp add: IH)
  next
    case True
    show ?thesis
    proof (cases "require i n val")
      case (Inl e)
      with True show ?thesis by simp
    next
      case (Inr w)
      show ?thesis
      proof (cases "find (\<lambda>n. constrains_bit n i) conds")
        case None
        with True Inr show ?thesis by (simp add: IH)
      next
        case (Some m)
        then have m: "m \<in> set conds" "constrains_bit m i"
          by (auto simp: find_Some_iff)
        then have "bits_at (bits n) (i - low n) = bits_at (bits m) (i - low m)"
          using Cons.prems[of n m] True by simp
        with True m have "require i m w = require i n val"
          by (simp add: require_constrains)
        with True Inr Some show ?thesis by (simp add: IH)
      qed
    qed
  qed
qed

lemma foldM_require_set:
  assumes ag: "agree conds" and st: "set conds' = set conds" and i: "i < 120"
  shows "foldM (require i) conds' val = foldM (require i) conds val"
proof -
  have same: "bits_at (bits n) (i - low n) = bits_at (bits n') (i - low n')"
    if "n \<in> set conds" "n' \<in> set conds" "constrains_bit n i" "constrains_bit n' i" for n n'
    using agreeD[OF ag that(1,2) _ that(3,4)] i by simp
  have l: "foldM (require i) conds val =
      (case find (\<lambda>n. constrains_bit n i) conds of None \<Rightarrow> Inr val | Some n \<Rightarrow> require i n val)"
    by (rule foldM_require_find) (rule same)
  have r: "foldM (require i) conds' val =
      (case find (\<lambda>n. constrains_bit n i) conds' of None \<Rightarrow> Inr val | Some n \<Rightarrow> require i n val)"
    by (rule foldM_require_find) (rule same; simp add: st)
  show ?thesis
  proof (cases "find (\<lambda>n. constrains_bit n i) conds")
    case None
    then have "\<not> (\<exists>n \<in> set conds'. constrains_bit n i)" by (simp add: find_None_iff st)
    then have "find (\<lambda>n. constrains_bit n i) conds' = None" by (simp add: find_None_iff)
    with None l r show ?thesis by simp
  next
    case (Some n)
    then have n: "n \<in> set conds" "constrains_bit n i" by (auto simp: find_Some_iff)
    then have "\<exists>n \<in> set conds'. constrains_bit n i" using st by auto
    then obtain n' where Some': "find (\<lambda>n. constrains_bit n i) conds' = Some n'"
      by (cases "find (\<lambda>n. constrains_bit n i) conds'") (auto simp: find_None_iff)
    then have n': "n' \<in> set conds" "constrains_bit n' i" using st by (auto simp: find_Some_iff)
    from same[OF n(1) n'(1) n(2) n'(2)] n n' have "require i n' val = require i n val"
      by (simp add: require_constrains)
    with Some Some' l r show ?thesis by simp
  qed
qed

lemma mapM_cong:
  "(\<And>x. x \<in> set xs \<Longrightarrow> f x = g x) \<Longrightarrow> mapM f xs = mapM g xs"
  by (induction xs) (auto split: sum.splits)

lemma classify_set:
  assumes "agree conds" "set conds' = set conds" "i < 120"
  shows "classify (ctxs[k := c\<lparr>decodeConditions := conds'\<rparr>]) chosen i p g =
         classify (ctxs[k := c\<lparr>decodeConditions := conds\<rparr>]) chosen i p g"
  using foldM_require_set[OF assms, of ignore]
  by (cases "p = k") (auto simp: classify_def at_index_def)

lemma requirements_set:
  assumes "agree conds" "set conds' = set conds"
  shows "get_decode_requirements_per_index (ctxs[k := c\<lparr>decodeConditions := conds'\<rparr>]) to_split chosen =
         get_decode_requirements_per_index (ctxs[k := c\<lparr>decodeConditions := conds\<rparr>]) to_split chosen"
proof -
  have "classify (ctxs[k := c\<lparr>decodeConditions := conds'\<rparr>]) chosen i =
        classify (ctxs[k := c\<lparr>decodeConditions := conds\<rparr>]) chosen i" if "i < 120" for i
    by (intro ext) (rule classify_set[OF assms that])
  then have eq: "foldM (classify (ctxs[k := c\<lparr>decodeConditions := conds'\<rparr>]) chosen i) to_split empty_group =
                 foldM (classify (ctxs[k := c\<lparr>decodeConditions := conds\<rparr>]) chosen i) to_split empty_group"
    if "i \<in> set [0..<120]" for i
    using that by simp
  show ?thesis
    unfolding get_decode_requirements_per_index_def
    by (rule mapM_cong) (rule eq)
qed

subsection \<open>The pattern of one byte\<close>

lemma set_val_isl: "isl (set_val n i c val) = isl (set_val n i c val')"
  by (auto simp: set_val_def Let_def split: sum.splits)

lemma foldM_set_val_isl:
  "isl (foldM (set_val n i) cs val) = isl (foldM (set_val n i) cs val')"
proof (induction cs arbitrary: val val')
  case Nil
  then show ?case by simp
next
  case (Cons c cs)
  from set_val_isl[of n i c val val'] Cons.IH show ?case
    by (cases "set_val n i c val"; cases "set_val n i c val'") auto
qed

lemma apply_condition_isl: "isl (apply_condition i n val) = isl (apply_condition i n val')"
  using foldM_set_val_isl[of n i "[0..<8]" val val'] by (simp add: apply_condition_def)

lemma foldM_apply_condition_isl:
  "isl (foldM (apply_condition i) conds val) = (\<exists>n \<in> set conds. isl (apply_condition i n val0))"
proof (induction conds arbitrary: val)
  case Nil
  then show ?case by simp
next
  case (Cons n conds)
  show ?case
  proof (cases "apply_condition i n val")
    case (Inl e)
    then have "isl (apply_condition i n val0)"
      using apply_condition_isl[of i n val val0] by simp
    with Inl show ?thesis by simp
  next
    case (Inr v1)
    then have "\<not> isl (apply_condition i n val0)"
      using apply_condition_isl[of i n val val0] by simp
    with Inr Cons.IH[of v1] show ?thesis by simp
  qed
qed

lemma foldM_set_val_nth:
  "foldM (set_val n i) cs val = Inr v1 \<Longrightarrow>
   length v1 = length val \<and>
   (\<forall>c < length val. v1 ! c =
      (if c \<in> set cs \<and> low n \<le> i * 8 + c \<and> i * 8 + c \<le> high_inc n
       then written_bit n i c else val ! c))"
proof (induction cs arbitrary: val)
  case Nil
  then show ?case by simp
next
  case (Cons c0 cs)
  from Cons.prems obtain v0 where v0: "set_val n i c0 val = Inr v0" "foldM (set_val n i) cs v0 = Inr v1"
    by (auto split: sum.splits)
  from v0(1) have len0: "length v0 = length val"
    by (auto simp: set_val_def Let_def split: if_splits sum.splits)
  from v0(1) have nth0: "v0 ! c =
      (if c = c0 \<and> low n \<le> i * 8 + c \<and> i * 8 + c \<le> high_inc n then written_bit n i c else val ! c)"
    if "c < length val" for c
    using that by (auto simp: set_val_def Let_def written_bit_def split: if_splits sum.splits)
  from Cons.IH[OF v0(2)] have len1: "length v1 = length v0"
    and nth1: "\<And>c. c < length v0 \<Longrightarrow> v1 ! c =
      (if c \<in> set cs \<and> low n \<le> i * 8 + c \<and> i * 8 + c \<le> high_inc n then written_bit n i c else v0 ! c)"
    by auto
  show ?case
  proof (intro conjI allI impI)
    show "length v1 = length val" using len0 len1 by simp
  next
    fix c assume c: "c < length val"
    with nth1[of c] nth0[of c] len0
    show "v1 ! c = (if c \<in> set (c0 # cs) \<and> low n \<le> i * 8 + c \<and> i * 8 + c \<le> high_inc n
                    then written_bit n i c else val ! c)"
      by auto
  qed
qed

lemma apply_condition_nth:
  assumes "apply_condition i n val = Inr v1" "length val = 8"
  shows "length v1 = 8 \<and> (\<forall>c < 8. v1 ! c = (if writes_bit n i c then written_bit n i c else val ! c))"
proof (cases "low n > (i + 1) * 8 \<or> high_inc n < i * 8 \<or> high_inc n = 119")
  case True
  with assms show ?thesis by (auto simp: apply_condition_def writes_bit_def)
next
  case False
  with assms(1) have "foldM (set_val n i) [0..<8] val = Inr v1"
    by (simp add: apply_condition_def)
  from foldM_set_val_nth[OF this] assms(2) False show ?thesis
    by (auto simp: writes_bit_def)
qed

lemma foldM_apply_condition_nth:
  assumes "foldM (apply_condition i) conds val = Inr v'" "length val = 8"
    and "\<And>n n' c. n \<in> set conds \<Longrightarrow> n' \<in> set conds \<Longrightarrow> writes_bit n i c \<Longrightarrow> writes_bit n' i c \<Longrightarrow>
           written_bit n i c = written_bit n' i c"
  shows "length v' = 8 \<and>
         (\<forall>c < 8. (\<forall>n \<in> set conds. writes_bit n i c \<longrightarrow> v' ! c = written_bit n i c) \<and>
                   ((\<forall>n \<in> set conds. \<not> writes_bit n i c) \<longrightarrow> v' ! c = val ! c))"
  using assms
proof (induction conds arbitrary: val)
  case Nil
  then show ?case by simp
next
  case (Cons n conds)
  from Cons.prems(1) obtain v1 where v1: "apply_condition i n val = Inr v1"
      "foldM (apply_condition i) conds v1 = Inr v'"
    by (auto split: sum.splits)
  from apply_condition_nth[OF v1(1) Cons.prems(2)] have len1: "length v1 = 8"
    and nth1: "\<And>c. c < 8 \<Longrightarrow> v1 ! c = (if writes_bit n i c then written_bit n i c else val ! c)"
    by auto
  have "length v' = 8 \<and>
         (\<forall>c < 8. (\<forall>m \<in> set conds. writes_bit m i c \<longrightarrow> v' ! c = written_bit m i c) \<and>
                   ((\<forall>m \<in> set conds. \<not> writes_bit m i c) \<longrightarrow> v' ! c = v1 ! c))"
    by (rule Cons.IH[OF v1(2) len1]) (rule Cons.prems(3); simp)
  then have len: "length v' = 8"
    and some: "\<And>c m. c < 8 \<Longrightarrow> m \<in> set conds \<Longrightarrow> writes_bit m i c \<Longrightarrow> v' ! c = written_bit m i c"
    and none: "\<And>c. c < 8 \<Longrightarrow> \<forall>m \<in> set conds. \<not> writes_bit m i c \<Longrightarrow> v' ! c = v1 ! c"
    by auto
  show ?case
  proof (intro conjI allI impI ballI)
    show "length v' = 8" by (rule len)
  next
    fix c m assume c: "c < 8" and m: "m \<in> set (n # conds)" and w: "writes_bit m i c"
    show "v' ! c = written_bit m i c"
    proof (cases "\<exists>m' \<in> set conds. writes_bit m' i c")
      case True
      then obtain m' where m': "m' \<in> set conds" "writes_bit m' i c" by auto
      from some[OF c m'] have "v' ! c = written_bit m' i c" .
      also have "written_bit m' i c = written_bit m i c"
        using Cons.prems(3)[of m' m c] m m' w by simp
      finally show ?thesis .
    next
      case False
      with m w have mn: "m = n" by auto
      from False none[OF c] have "v' ! c = v1 ! c" by simp
      with nth1[OF c] w mn show ?thesis by simp
    qed
  next
    fix c assume c: "c < 8" and no: "\<forall>m \<in> set (n # conds). \<not> writes_bit m i c"
    then have "v' ! c = v1 ! c" using none[OF c] by simp
    with nth1[OF c] no show "v' ! c = val ! c" by simp
  qed
qed

lemma writes_constrains:
  "writes_bit n i c \<Longrightarrow> constrains_bit n (i * 8 + c)"
  by (auto simp: writes_bit_def constrains_bit_def)

lemma agree_written:
  assumes "agree conds" "n \<in> set conds" "n' \<in> set conds" "i < 16" "writes_bit n i c" "writes_bit n' i c"
  shows "written_bit n i c = written_bit n' i c"
proof -
  from assms(5) have "c < 8" by (simp add: writes_bit_def)
  with assms(4) have "i * 8 + c < 128" by simp
  from agreeD[OF assms(1-3) this writes_constrains[OF assms(5)] writes_constrains[OF assms(6)]]
  show ?thesis by (simp add: written_bit_def)
qed

lemma input_check_set:
  assumes ag: "agree conds" and st: "set conds' = set conds" and i: "i < 16"
  shows "isl (input_check conds' i) = isl (input_check conds i) \<and>
         (\<forall>v. input_check conds i = Inr v \<longrightarrow> input_check conds' i = Inr v)"
proof (intro conjI allI impI)
  show isl: "isl (input_check conds' i) = isl (input_check conds i)"
    unfolding input_check_def
    by (simp add: foldM_apply_condition_isl[where ?val0.0 = "[]"] st)
  fix v assume v: "input_check conds i = Inr v"
  with isl obtain v' where v': "input_check conds' i = Inr v'"
    by (cases "input_check conds' i") auto
  have same: "written_bit n i c = written_bit n' i c"
    if "n \<in> set conds" "n' \<in> set conds" "writes_bit n i c" "writes_bit n' i c" for n n' c
    by (rule agree_written[OF ag that(1,2) i that(3,4)])
  have "length v = 8 \<and>
         (\<forall>c < 8. (\<forall>n \<in> set conds. writes_bit n i c \<longrightarrow> v ! c = written_bit n i c) \<and>
                   ((\<forall>n \<in> set conds. \<not> writes_bit n i c) \<longrightarrow> v ! c = replicate 8 ignore ! c))"
  proof (rule foldM_apply_condition_nth[OF v[unfolded input_check_def]])
    show "length (replicate 8 ignore) = 8" by simp
  next
    fix n n' c assume "n \<in> set conds" "n' \<in> set conds" "writes_bit n i c" "writes_bit n' i c"
    then show "written_bit n i c = written_bit n' i c" by (rule same)
  qed
  then have len: "length v = 8"
    and some: "\<And>c n. c < 8 \<Longrightarrow> n \<in> set conds \<Longrightarrow> writes_bit n i c \<Longrightarrow> v ! c = written_bit n i c"
    and none: "\<And>c. c < 8 \<Longrightarrow> \<forall>n \<in> set conds. \<not> writes_bit n i c \<Longrightarrow> v ! c = replicate 8 ignore ! c"
    by blast+
  have "length v' = 8 \<and>
         (\<forall>c < 8. (\<forall>n \<in> set conds'. writes_bit n i c \<longrightarrow> v' ! c = written_bit n i c) \<and>
                   ((\<forall>n \<in> set conds'. \<not> writes_bit n i c) \<longrightarrow> v' ! c = replicate 8 ignore ! c))"
  proof (rule foldM_apply_condition_nth[OF v'[unfolded input_check_def]])
    show "length (replicate 8 ignore) = 8" by simp
  next
    fix n n' c assume "n \<in> set conds'" "n' \<in> set conds'" "writes_bit n i c" "writes_bit n' i c"
    then show "written_bit n i c = written_bit n' i c" using same[of n n' c] st by simp
  qed
  then have len': "length v' = 8"
    and some': "\<And>c n. c < 8 \<Longrightarrow> n \<in> set conds \<Longrightarrow> writes_bit n i c \<Longrightarrow> v' ! c = written_bit n i c"
    and none': "\<And>c. c < 8 \<Longrightarrow> \<forall>n \<in> set conds. \<not> writes_bit n i c \<Longrightarrow> v' ! c = replicate 8 ignore ! c"
    unfolding st by blast+
  have "v' = v"
  proof (rule nth_equalityI)
    show "length v' = length v" using len len' by simp
  next
    fix c assume "c < length v'"
    with len' have c: "c < 8" by simp
    show "v' ! c = v ! c"
    proof (cases "\<exists>n \<in> set conds. writes_bit n i c")
      case True
      then obtain n where n: "n \<in> set conds" "writes_bit n i c" by auto
      from some[OF c n] some'[OF c n] show ?thesis by simp
    next
      case False
      then have no: "\<forall>n \<in> set conds. \<not> writes_bit n i c" by simp
      from none[OF c no] none'[OF c no] show ?thesis by simp
    qed
  qed
  with v' show "input_check conds' i = Inr v" by simp
qed

lemma mapM_isl: "isl (mapM f xs) = (\<exists>x \<in> set xs. isl (f x))"
  by (induction xs) (auto split: sum.splits)

lemma mapM_Inr_cong:
  "(\<And>x v. x \<in> set xs \<Longrightarrow> g x = Inr v \<Longrightarrow> f x = Inr v) \<Longrightarrow> mapM g xs = Inr r \<Longrightarrow> mapM f xs = Inr r"
proof (induction xs arbitrary: r)
  case Nil
  then show ?case by simp
next
  case (Cons x xs)
  from Cons.prems(2) obtain y ys where y: "g x = Inr y" "mapM g xs = Inr ys" "r = y # ys"
    by (auto split: sum.splits)
  from Cons.prems(1)[of x y] y(1) have "f x = Inr y" by simp
  moreover have "mapM f xs = Inr ys"
    by (rule Cons.IH[OF _ y(2)]) (rule Cons.prems(1); simp)
  ultimately show ?case using y(3) by simp
qed

lemma convert_conds:
  "convert_circIR_to_input_type_array (ctx\<lparr>decodeConditions := conds\<rparr>) =
   mapM (input_check conds) [0..<16]"
  unfolding convert_circIR_to_input_type_array_def by simp

lemma convert_set:
  assumes "agree conds" "set conds' = set conds"
  shows "isl (convert_circIR_to_input_type_array (ctx\<lparr>decodeConditions := conds'\<rparr>)) =
         isl (convert_circIR_to_input_type_array (ctx\<lparr>decodeConditions := conds\<rparr>))"
    and "convert_circIR_to_input_type_array (ctx\<lparr>decodeConditions := conds\<rparr>) = Inr r \<Longrightarrow>
         convert_circIR_to_input_type_array (ctx\<lparr>decodeConditions := conds'\<rparr>) = Inr r"
proof -
  have byte: "isl (input_check conds' i) = isl (input_check conds i)"
    and val: "input_check conds i = Inr v \<Longrightarrow> input_check conds' i = Inr v"
    if "i \<in> set [0..<16]" for i v
    using input_check_set[OF assms, of i] that by auto
  have "(\<exists>i \<in> set [0..<16]. isl (input_check conds' i)) =
        (\<exists>i \<in> set [0..<16]. isl (input_check conds i))"
    by (rule bex_cong[OF refl]) (rule byte)
  then show "isl (convert_circIR_to_input_type_array (ctx\<lparr>decodeConditions := conds'\<rparr>)) =
         isl (convert_circIR_to_input_type_array (ctx\<lparr>decodeConditions := conds\<rparr>))"
    unfolding convert_conds mapM_isl .
  assume "convert_circIR_to_input_type_array (ctx\<lparr>decodeConditions := conds\<rparr>) = Inr r"
  then have "mapM (input_check conds) [0..<16] = Inr r"
    unfolding convert_conds .
  then have "mapM (input_check conds') [0..<16] = Inr r"
    by (rule mapM_Inr_cong[rotated]) (rule val)
  then show "convert_circIR_to_input_type_array (ctx\<lparr>decodeConditions := conds'\<rparr>) = Inr r"
    unfolding convert_conds .
qed

subsection \<open>The error of a projection that fails\<close>

lemma foldM_Inl_first:
  "foldM f xs s = Inl e \<Longrightarrow>
   \<exists>ys x zs s'. xs = ys @ x # zs \<and> foldM f ys s = Inr s' \<and> f x s' = Inl e"
proof (induction xs arbitrary: s)
  case Nil
  then show ?case by simp
next
  case (Cons x xs)
  show ?case
  proof (cases "f x s")
    case (Inl e')
    with Cons.prems have "x # xs = [] @ x # xs \<and> foldM f [] s = Inr s \<and> f x s = Inl e" by simp
    then show ?thesis by blast
  next
    case (Inr s1)
    with Cons.prems have "foldM f xs s1 = Inl e" by simp
    from Cons.IH[OF this] obtain ys x' zs s' where
      "xs = ys @ x' # zs" "foldM f ys s1 = Inr s'" "f x' s' = Inl e" by blast
    with Inr have "x # xs = (x # ys) @ x' # zs \<and> foldM f (x # ys) s = Inr s' \<and> f x' s' = Inl e"
      by simp
    then show ?thesis by blast
  qed
qed

lemma mapM_Inl_first:
  "mapM f xs = Inl e \<Longrightarrow>
   \<exists>ys x zs. xs = ys @ x # zs \<and> (\<forall>y \<in> set ys. \<not> isl (f y)) \<and> f x = Inl e"
proof (induction xs)
  case Nil
  then show ?case by simp
next
  case (Cons x xs)
  show ?case
  proof (cases "f x")
    case (Inl e')
    with Cons.prems have "x # xs = [] @ x # xs \<and> (\<forall>y \<in> set []. \<not> isl (f y)) \<and> f x = Inl e"
      by simp
    then show ?thesis by blast
  next
    case (Inr y)
    with Cons.prems have "mapM f xs = Inl e" by (auto split: sum.splits)
    from Cons.IH[OF this] obtain ys x' zs where
      "xs = ys @ x' # zs" "\<forall>y \<in> set ys. \<not> isl (f y)" "f x' = Inl e" by blast
    with Inr have "x # xs = (x # ys) @ x' # zs \<and> (\<forall>y \<in> set (x # ys). \<not> isl (f y)) \<and> f x' = Inl e"
      by simp
    then show ?thesis by blast
  qed
qed

lemma upt_split:
  assumes "[0..<m] = ys @ j # zs"
  shows "ys = [0..<j] \<and> j < m"
proof -
  from assms have "length [0..<m] = length (ys @ j # zs)" by simp
  then have len: "length ys < m" by simp
  then have "[0..<m] ! length ys = length ys" by simp
  with assms have j: "j = length ys" by simp
  have "take (length ys) [0..<m] = [0..<length ys]" using len by simp
  with assms have "ys = [0..<length ys]" by simp
  with j len show ?thesis by simp
qed

lemma foldM_set_val_isl_iff:
  "isl (foldM (set_val n i) cs val) = (\<exists>c \<in> set cs. isl (set_val n i c val0))"
proof (induction cs arbitrary: val)
  case Nil
  then show ?case by simp
next
  case (Cons c cs)
  show ?case
  proof (cases "set_val n i c val")
    case (Inl e)
    then have "isl (set_val n i c val0)"
      using set_val_isl[of n i c val val0] by simp
    with Inl show ?thesis by simp
  next
    case (Inr v1)
    then have "\<not> isl (set_val n i c val0)"
      using set_val_isl[of n i c val val0] by simp
    with Inr Cons.IH[of v1] show ?thesis by simp
  qed
qed

lemma set_val_Inl:
  assumes "set_val n i c val = Inl e"
  shows "e = Unreachable ''Converting invalid value to InputType'' \<or>
         (low n \<le> i * 8 + c \<and> i * 8 + c \<le> high_inc n \<and> length (bits n) < i * 8 + c - low n)"
  using assms
  by (auto simp: set_val_def Let_def bits_at_def ctoit_def split: if_splits sum.splits)

lemma set_val_beyond:
  assumes "low n \<le> i * 8 + c" "i * 8 + c \<le> high_inc n" "length (bits n) \<le> i * 8 + c - low n"
  shows "isl (set_val n i c val)"
  using assms by (auto simp: set_val_def Let_def bits_at_def ctoit_def split: sum.splits)

lemma apply_condition_Inl:
  assumes e: "apply_condition i n val = Inl e"
    and other: "e \<noteq> Unreachable ''Converting invalid value to InputType''"
  shows "0 < i \<and> isl (apply_condition (i - 1) n val0)"
proof -
  from e have skip: "\<not> (low n > (i + 1) * 8 \<or> high_inc n < i * 8 \<or> high_inc n = 119)"
    and fold: "foldM (set_val n i) [0..<8] val = Inl e"
    by (auto simp: apply_condition_def split: if_splits)
  from foldM_Inl_first[OF fold] obtain ys c0 zs s' where
    split: "[0..<8] = ys @ c0 # zs" and before: "foldM (set_val n i) ys val = Inr s'"
    and at: "set_val n i c0 s' = Inl e" by blast
  from upt_split[OF split] have ys: "ys = [0..<c0]" and c0: "c0 < 8" by simp_all
  from set_val_Inl[OF at] other have lo: "low n \<le> i * 8 + c0" and hi: "i * 8 + c0 \<le> high_inc n"
    and beyond: "length (bits n) < i * 8 + c0 - low n" by simp_all
  have "c0 = 0"
  proof (rule ccontr)
    assume "c0 \<noteq> 0"
    then have "c0 - 1 \<in> set ys" using ys by simp
    moreover have "isl (set_val n i (c0 - 1) val)"
      by (rule set_val_beyond) (use \<open>c0 \<noteq> 0\<close> lo hi beyond in simp_all)
    ultimately have "isl (foldM (set_val n i) ys val)"
      unfolding foldM_set_val_isl_iff[where ?val0.0 = val] by blast
    with before show False by simp
  qed
  with lo hi beyond have lo0: "low n < i * 8" and hi0: "i * 8 \<le> high_inc n"
    and beyond0: "length (bits n) < i * 8 - low n" by simp_all
  from lo0 have i: "0 < i" by simp
  then have eq: "(i - 1) * 8 + 7 = i * 8 - 1" by simp
  have "isl (set_val n (i - 1) 7 val0)"
    by (rule set_val_beyond) (use lo0 hi0 beyond0 eq in simp_all)
  moreover have "(7::nat) \<in> set [0..<8]" by simp
  ultimately have "isl (foldM (set_val n (i - 1)) [0..<8] val0)"
    unfolding foldM_set_val_isl_iff[where ?val0.0 = val0] by blast
  moreover have "\<not> (low n > (i - 1 + 1) * 8 \<or> high_inc n < (i - 1) * 8 \<or> high_inc n = 119)"
    using skip lo0 hi0 i by simp
  ultimately have "isl (apply_condition (i - 1) n val0)"
    by (simp add: apply_condition_def)
  with i show ?thesis by simp
qed

lemma input_check_Inl:
  assumes e: "input_check conds i = Inl e"
    and other: "e \<noteq> Unreachable ''Converting invalid value to InputType''"
  shows "0 < i \<and> isl (input_check conds (i - 1))"
proof -
  from foldM_Inl_first[OF e[unfolded input_check_def]] obtain ys n zs s' where
    split: "conds = ys @ n # zs" and at: "apply_condition i n s' = Inl e" by blast
  from apply_condition_Inl[OF at other, of "replicate 8 ignore"]
  have i: "0 < i" and prev: "isl (apply_condition (i - 1) n (replicate 8 ignore))" by simp_all
  from split have "n \<in> set conds" by simp
  with prev have "isl (input_check conds (i - 1))"
    unfolding input_check_def foldM_apply_condition_isl[where ?val0.0 = "replicate 8 ignore"]
    by blast
  with i show ?thesis by simp
qed

lemma convert_Inl:
  assumes "convert_circIR_to_input_type_array ctx = Inl e"
  shows "e = Unreachable ''Converting invalid value to InputType''"
proof (rule ccontr)
  assume other: "e \<noteq> Unreachable ''Converting invalid value to InputType''"
  from assms have "mapM (input_check (decodeConditions ctx)) [0..<16] = Inl e"
    unfolding convert_circIR_to_input_type_array_def .
  from mapM_Inl_first[OF this] obtain ys j zs where
    split: "[0..<16] = ys @ j # zs" and before: "\<forall>y \<in> set ys. \<not> isl (input_check (decodeConditions ctx) y)"
    and at: "input_check (decodeConditions ctx) j = Inl e" by blast
  from upt_split[OF split] have ys: "ys = [0..<j]" by simp
  from input_check_Inl[OF at other] have j: "0 < j"
    and prev: "isl (input_check (decodeConditions ctx) (j - 1))" by simp_all
  from j ys have "j - 1 \<in> set ys" by simp
  with before prev show False by blast
qed

lemma convert_set_eq:
  assumes "agree conds" "set conds' = set conds"
  shows "convert_circIR_to_input_type_array (ctx\<lparr>decodeConditions := conds'\<rparr>) =
         convert_circIR_to_input_type_array (ctx\<lparr>decodeConditions := conds\<rparr>)"
proof (cases "convert_circIR_to_input_type_array (ctx\<lparr>decodeConditions := conds\<rparr>)")
  case (Inr r)
  with convert_set(2)[OF assms Inr] show ?thesis by simp
next
  case (Inl e)
  with convert_set(1)[OF assms, of ctx] obtain e' where
    Inl': "convert_circIR_to_input_type_array (ctx\<lparr>decodeConditions := conds'\<rparr>) = Inl e'"
    by (cases "convert_circIR_to_input_type_array (ctx\<lparr>decodeConditions := conds'\<rparr>)") auto
  from convert_Inl[OF Inl] convert_Inl[OF Inl'] Inl Inl' show ?thesis by simp
qed

subsection \<open>One more copy of a condition\<close>

text \<open>
  C8, as stated, fails: the conditions of \<open>conflicting_ctx\<close> disagree on bit 0, and after
  one more copy of its first condition is inserted the second condition, which was read
  last, is read first. Bit 0 of the projected pattern turns from \<open>one\<close> to \<open>zero\<close>, and
  the context moves from the ones to the zeros of bit 0.
\<close>

theorem C8_rehash_counterexample:
  "with_copy (low_bits ''00000000'') (decodeConditions conflicting_ctx) conflicting_rehashed \<and>
   convert_circIR_to_input_type_array conflicting_ctx =
     Inr ((one # replicate 7 zero) # replicate 15 (replicate 8 ignore)) \<and>
   convert_circIR_to_input_type_array (conflicting_ctx\<lparr>decodeConditions := conflicting_rehashed\<rparr>) =
     Inr (replicate 8 zero # replicate 15 (replicate 8 ignore)) \<and>
   get_decode_requirements_per_index [conflicting_ctx] [0] [] =
     Inr (\<lparr>zeros = [], ones = [0], ignores = []\<rparr> # replicate 7 \<lparr>zeros = [0], ones = [], ignores = []\<rparr>
          @ replicate 112 \<lparr>zeros = [], ones = [], ignores = [0]\<rparr>) \<and>
   get_decode_requirements_per_index [conflicting_ctx\<lparr>decodeConditions := conflicting_rehashed\<rparr>] [0] [] =
     Inr (replicate 8 \<lparr>zeros = [0], ones = [], ignores = []\<rparr>
          @ replicate 112 \<lparr>zeros = [], ones = [], ignores = [0]\<rparr>)"
  by code_simp

text \<open>
  C8, amended: one more copy of a decode condition that a context already holds leaves
  the projected 16-byte tri-state pattern of the context and the zeros/ones/ignores
  groups of every bit unchanged in two cases. For every context, when the copy is read
  next to the condition it copies and the other conditions are read in the order they
  were read in before. For every context whose conditions agree on every bit that two
  of them constrain, in whatever order the conditions are read after the insertion.
\<close>

theorem C8_copy_of_condition:
  "(convert_circIR_to_input_type_array (ctx\<lparr>decodeConditions := xs @ d # d # ys\<rparr>) =
    convert_circIR_to_input_type_array (ctx\<lparr>decodeConditions := xs @ d # ys\<rparr>)
    \<and> get_decode_requirements_per_index (ctxs[k := c\<lparr>decodeConditions := xs @ d # d # ys\<rparr>])
          to_split already_chosen_bits =
      get_decode_requirements_per_index (ctxs[k := c\<lparr>decodeConditions := xs @ d # ys\<rparr>])
          to_split already_chosen_bits)
   \<and> (agree conds \<and> with_copy d conds conds' \<longrightarrow>
        convert_circIR_to_input_type_array (ctx\<lparr>decodeConditions := conds'\<rparr>) =
        convert_circIR_to_input_type_array (ctx\<lparr>decodeConditions := conds\<rparr>)
        \<and> get_decode_requirements_per_index (ctxs[k := c\<lparr>decodeConditions := conds'\<rparr>])
              to_split already_chosen_bits =
          get_decode_requirements_per_index (ctxs[k := c\<lparr>decodeConditions := conds\<rparr>])
              to_split already_chosen_bits)"
proof (intro conjI impI)
  have "input_check (xs @ d # d # ys) = input_check (xs @ d # ys)"
    by (rule ext) (rule input_check_duplicate)
  then show "convert_circIR_to_input_type_array (ctx\<lparr>decodeConditions := xs @ d # d # ys\<rparr>) =
      convert_circIR_to_input_type_array (ctx\<lparr>decodeConditions := xs @ d # ys\<rparr>)"
    by (simp add: convert_conds)
next
  have "classify (ctxs[k := c\<lparr>decodeConditions := xs @ d # d # ys\<rparr>]) already_chosen_bits
      = classify (ctxs[k := c\<lparr>decodeConditions := xs @ d # ys\<rparr>]) already_chosen_bits"
    by (intro ext) (rule classify_duplicate)
  then show "get_decode_requirements_per_index (ctxs[k := c\<lparr>decodeConditions := xs @ d # d # ys\<rparr>])
        to_split already_chosen_bits =
      get_decode_requirements_per_index (ctxs[k := c\<lparr>decodeConditions := xs @ d # ys\<rparr>])
        to_split already_chosen_bits"
    by (simp add: get_decode_requirements_per_index_def)
next
  assume "agree conds \<and> with_copy d conds conds'"
  then have ag: "agree conds" and st: "set conds' = set conds"
    using with_copy_set[of d conds conds'] by simp_all
  show "convert_circIR_to_input_type_array (ctx\<lparr>decodeConditions := conds'\<rparr>) =
      convert_circIR_to_input_type_array (ctx\<lparr>decodeConditions := conds\<rparr>)"
    by (rule convert_set_eq[OF ag st])
next
  assume "agree conds \<and> with_copy d conds conds'"
  then have ag: "agree conds" and st: "set conds' = set conds"
    using with_copy_set[of d conds conds'] by simp_all
  show "get_decode_requirements_per_index (ctxs[k := c\<lparr>decodeConditions := conds'\<rparr>])
        to_split already_chosen_bits =
      get_decode_requirements_per_index (ctxs[k := c\<lparr>decodeConditions := conds\<rparr>])
        to_split already_chosen_bits"
    by (rule requirements_set[OF ag st])
qed

theorem C8_copy_of_condition_witness:
  "agree (collected plain_vi) \<and>
   with_copy (low_bits ''00001001'') (collected plain_vi) plain_rehashed \<and>
   convert_circIR_to_input_type_array (plain_ctx\<lparr>decodeConditions := plain_rehashed\<rparr>) =
     convert_circIR_to_input_type_array plain_ctx \<and>
   get_decode_requirements_per_index [plain_ctx\<lparr>decodeConditions := plain_rehashed\<rparr>] [0] [] =
     get_decode_requirements_per_index [plain_ctx] [0] [] \<and>
   convert_circIR_to_input_type_array plain_ctx =
     Inr ([zero, zero, zero, zero, one, zero, zero, one] # replicate 15 (replicate 8 ignore))"
proof -
  have a: "agree (collected plain_vi)"
    by code_simp
  have w: "with_copy (low_bits ''00001001'') (collected plain_vi) plain_rehashed"
    by code_simp
  have p: "plain_ctx\<lparr>decodeConditions := collected plain_vi\<rparr> = plain_ctx"
    by (simp add: plain_ctx_def plain_vi_def)
  have v: "convert_circIR_to_input_type_array plain_ctx =
     Inr ([zero, zero, zero, zero, one, zero, zero, one] # replicate 15 (replicate 8 ignore))"
    by code_simp
  from C8_copy_of_condition[where ctx = plain_ctx and conds = "collected plain_vi"
      and conds' = plain_rehashed and d = "low_bits ''00001001''" and ctxs = "[plain_ctx]"
      and k = 0 and c = plain_ctx and to_split = "[0]" and already_chosen_bits = "[]"] a w p v
  show ?thesis by simp
qed

section \<open>Errors of context extraction\<close>

lemma extract_one_Inl:
  "isl (extract_one vi) = (no_length_delimiter vi \<or> longer_than_15_bytes vi)"
proof (cases "find (\<lambda>dc. high_bit_exc dc = 120) (collected vi)")
  case None
  moreover from None have "\<not> (\<exists>dc \<in> set (collected vi). high_bit_exc dc = 120)"
    by (simp add: find_None_iff)
  ultimately show ?thesis
    by (simp add: extract_one_def no_length_delimiter_def longer_than_15_bytes_def list_ex_iff Let_def)
next
  case (Some x)
  then have "\<exists>dc \<in> set (collected vi). high_bit_exc dc = 120"
    by (auto simp: find_Some_iff)
  with Some show ?thesis
    by (simp add: extract_one_def no_length_delimiter_def longer_than_15_bytes_def list_ex_iff Let_def)
qed

lemma extract_ctx_Inl:
  "isl (extract_ctx Contexts extracted_ctxs) = (\<exists>vi \<in> set Contexts. isl (extract_one vi))"
  unfolding extract_ctx_def
  by (induction Contexts arbitrary: extracted_ctxs) (auto split: sum.splits)

text \<open>
  C4, as stated, fails: a context with a length delimiter whose two conditions on bits 0
  to 7 disagree on bit 0 is extracted without an error.
\<close>

theorem C4_disagreement_counterexample:
  "disagree (collected conflicting_vi) \<and>
   extract_ctx [conflicting_vi] [] =
     Inr [\<lparr>generated_name = ''generated_decoder_prefix_12'', encoding_size_in_bytes = 1,
           decodeConditions = collected conflicting_vi\<rparr>]"
  by code_simp

text \<open>
  C4, amended: context extraction reports an error exactly when some context has no
  condition whose \<open>Extract\<close> ends at bit 120, or when the \<open>low_bit_inc\<close> of the first
  such condition, divided by 8, exceeds 15; in all other cases, also when conditions
  disagree over a bit, extraction succeeds.
\<close>

theorem C4_extraction_errors:
  "isl (extract_ctx Contexts extracted_ctxs) =
   (\<exists>vi \<in> set Contexts. no_length_delimiter vi \<or> longer_than_15_bytes vi)"
  by (simp add: extract_ctx_Inl extract_one_Inl)

theorem C4_extraction_errors_witness:
  "isl (extract_ctx [plain_vi, endless_vi] []) \<and> no_length_delimiter endless_vi \<and>
   isl (extract_ctx [overlong_vi] []) \<and> longer_than_15_bytes overlong_vi \<and>
   \<not> isl (extract_ctx [plain_vi, conflicting_vi] [])"
  using C4_extraction_errors[of "[plain_vi, endless_vi]" "[]"] C4_extraction_errors[of "[overlong_vi]" "[]"]
    C4_extraction_errors[of "[plain_vi, conflicting_vi]" "[]"]
  by (simp add: no_length_delimiter_def longer_than_15_bytes_def plain_vi_def endless_vi_def
      overlong_vi_def conflicting_vi_def low_bits_def one_byte_def)

section \<open>Inverting a region map\<close>

lemma present_Nil [simp]: "present [] idx = False" by (simp add: present_def)

lemma present_Cons: "present ((f, s) # rs) idx = ((f \<le> idx \<and> idx < f + s) \<or> present rs idx)"
  by (simp add: present_def)

lemma present_assign_fresh:
  "\<forall>k' \<in> fst ` set out. k' \<noteq> k \<Longrightarrow> present (assign k v out) idx = ((k \<le> idx \<and> idx < k + v) \<or> present out idx)"
  by (induction out) (auto simp: present_Cons split: if_splits)

lemma keys_assign: "fst ` set (assign k v out) = insert k (fst ` set out)"
  by (induction k v out rule: assign.induct) (simp_all add: insert_commute)

lemma unat_lt64: "unat (w::64 word) < 2 ^ 64"
  using unsigned_less[of w] by simp

lemma in_region:
  "unat (f::64 word) + unat s < 2 ^ 64 \<Longrightarrow> (f \<le> idx \<and> idx < f + s) = (unat f \<le> unat idx \<and> unat idx < unat f + unat s)"
proof -
  assume "unat f + unat s < 2 ^ 64"
  then have "unat (f + s) = unat f + unat s"
    by (simp add: unat_plus_if')
  then show ?thesis by (simp add: word_le_nat_alt word_less_nat_alt)
qed

lemma chain_le: "chain cur rs len \<Longrightarrow> cur \<le> len"
  by (induction rs arbitrary: cur) auto

lemma present_chain:
  "chain cur rs (unat (len::64 word)) \<Longrightarrow> unat idx < cur \<Longrightarrow> \<not> present rs idx"
proof (induction rs arbitrary: cur)
  case Nil then show ?case by simp
next
  case (Cons r rs)
  obtain f s where r: "r = (f, s)" by (cases r)
  from Cons.prems r have c: "cur \<le> unat f" "unat f + unat s \<le> unat len" "chain (unat f + unat s) rs (unat len)" by auto
  have lt: "unat f + unat s < 2 ^ 64" using c(2) unat_lt64[of len] by simp
  have "\<not> present rs idx" using Cons.IH[OF c(3)] Cons.prems(2) c(1) by simp
  then show ?case using r in_region[OF lt] Cons.prems(2) c(1) by (simp add: present_Cons)
qed

lemma fold_Invert:
  "chain (unat current) what (unat (len::64 word)) \<Longrightarrow> \<forall>k \<in> fst ` set out. k < current \<Longrightarrow>
   fold Invert_step what (out, current) = (out', current') \<Longrightarrow>
   unat current' \<le> unat len \<and> (\<forall>k \<in> fst ` set out'. k < current') \<and> unat current \<le> unat current' \<and>
   (\<forall>idx. present what idx \<longrightarrow> unat idx < unat current') \<and>
   (\<forall>idx. present out' idx = (present out idx \<or> (unat current \<le> unat idx \<and> unat idx < unat current' \<and> \<not> present what idx)))"
proof (induction what arbitrary: out current)
  case Nil
  then show ?case by auto
next
  case (Cons r rs)
  obtain f s where r: "r = (f, s)" by (cases r)
  from Cons.prems(1) r have c: "unat current \<le> unat f" "unat f + unat s \<le> unat len" "chain (unat f + unat s) rs (unat len)" by auto
  have lt: "unat f + unat s < 2 ^ 64" using c(2) unat_lt64[of len] by simp
  have fs: "unat (f + s) = unat f + unat s" using lt by (simp add: unat_plus_if')
  have cf: "current \<le> f" using c(1) by (simp add: word_le_nat_alt)
  define out1 where "out1 = (if current \<noteq> f then assign current (f - current) out else out)"
  have step: "fold Invert_step (r # rs) (out, current) = fold Invert_step rs (out1, f + s)"
    by (simp add: Invert_step_def r out1_def)
  have fresh: "\<forall>k' \<in> fst ` set out. k' \<noteq> current" using Cons.prems(2) by auto
  have keys1: "\<forall>k \<in> fst ` set out1. k < f + s"
  proof
    fix k assume "k \<in> fst ` set out1"
    then consider "k = current" "current \<noteq> f" | "k \<in> fst ` set out"
      using keys_assign[of current "f - current" out] by (auto simp: out1_def split: if_splits)
    then have "unat k < unat f \<or> unat k < unat current"
    proof cases
      case 1
      with cf have "current < f" by simp
      with 1 show ?thesis by (simp add: word_less_nat_alt)
    next
      case 2
      with Cons.prems(2) have "k < current" by blast
      then show ?thesis by (simp add: word_less_nat_alt)
    qed
    with c(1) have "unat k < unat f + unat s" by linarith
    then show "k < f + s" using fs by (simp add: word_less_nat_alt)
  qed
  have p1: "present out1 idx = (present out idx \<or> (unat current \<le> unat idx \<and> unat idx < unat f))" for idx
  proof (cases "current = f")
    case True then show ?thesis by (auto simp: out1_def)
  next
    case False
    have "unat (f - current) = unat f - unat current" using cf by (simp add: unat_sub)
    then have "unat current + unat (f - current) = unat f" using c(1) by simp
    moreover have "current + (f - current) = f" by simp
    ultimately have "(current \<le> idx \<and> idx < current + (f - current)) = (unat current \<le> unat idx \<and> unat idx < unat f)"
      by (simp add: word_le_nat_alt word_less_nat_alt)
    then show ?thesis using False present_assign_fresh[OF fresh] by (auto simp: out1_def)
  qed
  from Cons.prems(3) step have rest: "fold Invert_step rs (out1, f + s) = (out', current')" by simp
  have c3: "chain (unat (f + s)) rs (unat len)" using c(3) fs by simp
  note IH = Cons.IH[OF c3 keys1 rest]
  have "present out' idx = (present out idx \<or> (unat current \<le> unat idx \<and> unat idx < unat current' \<and> \<not> present (r # rs) idx))" for idx
  proof -
    have a: "present out' idx = (present out1 idx \<or> (unat (f + s) \<le> unat idx \<and> unat idx < unat current' \<and> \<not> present rs idx))"
      using IH by blast
    have b: "present (r # rs) idx = ((unat f \<le> unat idx \<and> unat idx < unat f + unat s) \<or> present rs idx)"
      using in_region[OF lt] by (simp add: r present_Cons)
    have d: "unat idx < unat f + unat s \<Longrightarrow> \<not> present rs idx"
      using present_chain[OF c(3)] by simp
    have e: "unat f + unat s \<le> unat current'" using IH fs by simp
    show ?thesis unfolding a b p1 fs using d e c(1) by auto
  qed
  moreover have "present (r # rs) idx \<longrightarrow> unat idx < unat current'" for idx
    using IH fs in_region[OF lt, of idx] by (auto simp: r present_Cons)
  ultimately show ?case using IH fs c(1) by auto
qed

lemma chain_of_apart:
  "sorted_wrt (<) (map fst what) \<Longrightarrow> \<forall>r \<in> set what. inside lenght r \<Longrightarrow>
   \<forall>r \<in> set what. \<forall>r' \<in> set what. r \<noteq> r' \<longrightarrow> apart r r' \<Longrightarrow>
   \<forall>r \<in> set what. cur \<le> unat (fst r) \<Longrightarrow> cur \<le> unat lenght \<Longrightarrow> chain cur what (unat lenght)"
proof (induction what arbitrary: cur)
  case Nil
  then show ?case by simp
next
  case (Cons r rs)
  obtain f s where r: "r = (f, s)" by (cases r)
  have "unat f + unat s \<le> unat (fst r')" if "r' \<in> set rs" for r'
  proof -
    from Cons.prems(1) that r have lt: "f < fst r'" by auto
    then have "r \<noteq> r'" using r by auto
    with Cons.prems(3) that have "apart r r'" by simp
    with lt show ?thesis by (auto simp: apart_def r word_less_nat_alt)
  qed
  moreover have "unat f + unat s \<le> unat lenght"
    using Cons.prems(2) by (simp add: r inside_def)
  ultimately have "chain (unat f + unat s) rs (unat lenght)"
    using Cons.prems by (intro Cons.IH) auto
  then show ?case using Cons.prems(2,4) by (simp add: r inside_def)
qed

text \<open>
  C9: for a region map whose regions lie within \<open>[0, lenght)\<close> and are pairwise disjoint
  and non-adjacent, every index below \<open>lenght\<close> is covered by exactly one of the map and
  its inversion; in particular \<open>UnknownRegions\<close> covers precisely the positions that
  \<open>IdentifiedRegions\<close> does not cover.
\<close>

theorem C9_Invert_is_complement:
  assumes "is_map what" and "\<forall>r \<in> set what. inside lenght r"
    and "\<forall>r \<in> set what. \<forall>r' \<in> set what. r \<noteq> r' \<longrightarrow> apart r r'"
    and "idx < lenght"
  shows "present (Invert what lenght) idx = (\<not> present what idx) \<and>
         (IdentifiedRegions inst = what \<longrightarrow>
            present (UnknownRegions inst lenght) idx = (\<not> present (IdentifiedRegions inst) idx))"
proof -
  have ch: "chain (unat (0::64 word)) what (unat lenght)"
    using assms(1-3) by (intro chain_of_apart) (auto simp: is_map_def)
  obtain out current where f: "fold Invert_step what ([], 0) = (out, current)"
    by (cases "fold Invert_step what ([], 0)")
  have keys0: "\<forall>k \<in> fst ` set ([]::region_t). k < 0" by simp
  note inv = fold_Invert[OF ch keys0 f]
  have fresh: "\<forall>k' \<in> fst ` set out. k' \<noteq> current" using inv by auto
  have tail: "(current \<le> idx \<and> idx < current + (lenght - current)) = (unat current \<le> unat idx)"
    using assms(4) by (simp add: word_le_nat_alt)
  have "present (Invert what lenght) idx = (present out idx \<or> unat current \<le> unat idx)"
  proof (cases "current = lenght")
    case True
    then show ?thesis using f assms(4) by (auto simp: Invert_def word_less_nat_alt)
  next
    case False
    then show ?thesis using f tail present_assign_fresh[OF fresh] by (auto simp: Invert_def)
  qed
  moreover have "present out idx = (unat idx < unat current \<and> \<not> present what idx)"
    using inv by simp
  moreover have "present what idx \<longrightarrow> unat idx < unat current"
    using inv by blast
  ultimately have "present (Invert what lenght) idx = (\<not> present what idx)" by auto
  then show ?thesis by (auto simp: UnknownRegions_def)
qed

theorem C9_Invert_is_complement_witness:
  "is_map two_regions \<and> list_all (inside 10) two_regions \<and>
   list_all (\<lambda>r. list_all (\<lambda>r'. r = r' \<or> apart r r') two_regions) two_regions \<and>
   (5::64 word) < 10 \<and>
   IdentifiedRegions two_operands = two_regions \<and>
   Invert two_regions 10 = [(0, 2), (5, 2), (8, 2)] \<and>
   present (Invert two_regions 10) 5 \<and> \<not> present two_regions 5 \<and>
   present (UnknownRegions two_operands 10) 5 \<and> \<not> present (IdentifiedRegions two_operands) 5"
  using C9_Invert_is_complement[of two_regions 10 5 two_operands]
  by (simp add: is_map_def inside_def apart_def Invert_def Invert_step_def present_def
      two_regions_def two_operands_def IdentifiedRegions_def UnknownRegions_def collect_def
      collect_address_def)

section \<open>Exit codes of the driver\<close>

text \<open>
  C7, as stated, fails: when lifting from the binary fails (the collaborator returns a
  null pointer) the process exits with code 1, not 2.
\<close>

theorem C7_lift_failure_counterexample:
  "exit_code (main failing binary_flags) = 1 \<and> exit_code (main failing binary_flags) \<noteq> 2"
  by (simp add: main_def get_circuit_def failing_def binary_flags_def no_flags_def EXIT_FAILURE_def)

text \<open>
  C7, amended: the process exits with code 1 when neither a binary-in path nor an IR-in
  path is supplied, with code 1 as well when lifting or deserializing yields no circuit,
  and with code 0 otherwise.
\<close>

theorem C7_exit_codes:
  "exit_code (main env fl) =
     (if FLAGS_binary_in fl = [] \<and> FLAGS_ir_in fl = [] then 1
      else if get_circuit env fl = Some None then 1
      else 0)"
  by (auto simp: main_def get_circuit_def EXIT_FAILURE_def EXIT_SUCCESS_def Let_def
      split: option.splits)

theorem C7_exit_codes_witness:
  "exit_code (main working no_flags) = 1 \<and> exit_code (main failing ir_flags) = 1
   \<and> exit_code (main working ir_flags) = 0 \<and> exit_code (main working binary_flags) = 0"
  using C7_exit_codes[of working no_flags] C7_exit_codes[of failing ir_flags]
    C7_exit_codes[of working ir_flags] C7_exit_codes[of working binary_flags]
  by (simp add: get_circuit_def working_def failing_def no_flags_def ir_flags_def binary_flags_def)

section \<open>Adding a node to the e-graph\<close>

lemmas egraph_defs =
  add_def create_singleton_eclass_def make_set_def emplace_def at_def index_def assign_at_def
  erase_def add_parent_def merge_def find_compress_def uf_find_def uf_merge_def canonicalize_def
  repair_node_def repair_parent_def repair_def canonicalize_class_def note_changed_def rebuild_def
  find_id_def find_enode_def node_key_def canonical_key_def at_index_def empty_class_def
  empty_egraph_def empty_unions_def leaf_def unary_def Let_def











text \<open>
  C2: after \<open>f(a)\<close> and \<open>f(b)\<close> are added and the classes of \<open>a\<close> and \<open>b\<close> are merged,
  \<open>rebuild\<close> returns with the two \<open>f\<close> nodes having the same canonical key and still
  lying in the different classes 2 and 3: \<open>repair\<close> deduplicates the parents of a class
  by their class ids and never merges them.
\<close>

theorem C2_rebuild_leaves_congruent_nodes_apart:
  "run [Add (leaf ''a''), Add (leaf ''b''), Add (unary ''f'' 0), Add (unary ''f'' 1), Merge 0 1, Rebuild]
     empty_egraph = Inr eg_rebuilt
   \<and> canonical_key eg_rebuilt 2 = canonical_key eg_rebuilt 3
   \<and> find_enode eg_rebuilt 2 = Inr 2 \<and> find_enode eg_rebuilt 3 = Inr 3"
  by (simp add: egraph_defs eg_rebuilt_def)

section \<open>Soundness of e-matching\<close>

lemma extends_refl: "extends mp mp"
  by (simp add: extends_def)

lemma extends_trans: "extends a b \<Longrightarrow> extends b c \<Longrightarrow> extends a c"
  by (simp add: extends_def)

lemma binds_extends: "binds places mp ps \<Longrightarrow> extends mp mp' \<Longrightarrow> binds places mp' ps"
  by (fastforce simp: binds_def extends_def)

lemma binds_append: "binds places mp (ps @ qs) = (binds places mp ps \<and> binds places mp qs)"
  by (auto simp: binds_def)

lemma in_and_then: "m \<in> set (fst (and_then g1 g2)) \<Longrightarrow> m \<in> set (fst g1) \<or> m \<in> set (fst g2)"
  by (auto simp: and_then_def split: option.splits)

lemma in_for_each:
  "m \<in> set (fst (for_each ms body)) \<Longrightarrow> \<exists>m' \<in> set ms. m \<in> set (fst (body m'))"
  by (induction ms) (auto simp: nothing_def dest: in_and_then)

lemma in_for_gen:
  "m \<in> set (fst (for_gen gen body)) \<Longrightarrow> \<exists>m' \<in> set (fst gen). m \<in> set (fst (body m'))"
  by (auto simp: for_gen_def dest!: in_and_then in_for_each)

lemma matches_at_extends:
  "matches_at graph places mp e node \<Longrightarrow> extends mp mp' \<Longrightarrow> matches_at graph places mp' e node"
  "children_matched graph places mp es handles \<Longrightarrow> extends mp mp' \<Longrightarrow>
   children_matched graph places mp' es handles"
  by (induction graph places mp e node and graph places mp es handles
      rule: matches_at_children_matched.induct)
    (auto simp: extends_def list_ex_iff)

lemma place_index_mod: "length places < 2 ^ 32 \<Longrightarrow> place_index p places mod 2 ^ 32 = place_index p places"
proof -
  assume "length places < 2 ^ 32"
  moreover have "place_index p places \<le> length places"
    unfolding place_index_def by (rule length_takeWhile_le)
  ultimately show ?thesis by simp
qed

lemma match_atom_sound:
  assumes "m \<in> set (fst (match_atom graph places a node mp))"
    and "length places < 2 ^ 32"
  shows "root m = find_node graph node \<and> extends mp (matched_places m)
         \<and> matches_at graph places (matched_places m) (atom a) node
         \<and> binds places (matched_places m) (places_of (atom a))"
proof (cases a)
  case (place_t p)
  let ?pid = "place_index p places"
  note pid = place_index_mod[OF assms(2), of p]
  from assms(1) place_t pid
  have m: "m = \<lparr>root = find_node graph node, matched_places = emplace mp ?pid (find_node graph node)\<rparr>"
    and ok: "map_of mp ?pid = None \<or> map_of mp ?pid = Some (find_node graph node)"
    by (auto simp: match_atom_def Let_def co_yield_def nothing_def split: if_splits option.splits)
  from ok have "map_of (emplace mp ?pid (find_node graph node)) ?pid = Some (find_node graph node)"
    by (auto simp: emplace_def map_add_def)
  moreover have "extends mp (emplace mp ?pid (find_node graph node))"
    by (auto simp: extends_def emplace_def map_add_def split: option.splits)
  ultimately show ?thesis using m place_t by (simp add: binds_def)
qed (use assms(1) in \<open>auto simp: match_atom_def co_yield_def nothing_def abort_def extends_refl binds_def
       split: if_splits\<close>)

lemma match_sound:
  fixes graph :: "'n graph_like"
  shows
  "m \<in> set (fst (match_simple graph places e node mp)) \<Longrightarrow> length places < 2 ^ 32 \<Longrightarrow>
     root m = find_node graph node \<and> extends mp (matched_places m)
     \<and> matches_at graph places (matched_places m) e node
     \<and> binds places (matched_places m) (places_of e)"
  and
  "m \<in> set (fst (match_eclass graph places e enodes mp)) \<Longrightarrow> length places < 2 ^ 32 \<Longrightarrow>
     extends mp (matched_places m)
     \<and> list_ex (matches_at graph places (matched_places m) e) enodes
     \<and> binds places (matched_places m) (places_of e)"
  and
  "m \<in> set (fst (match_children graph places es handles mp)) \<Longrightarrow> length places < 2 ^ 32 \<Longrightarrow>
     length es = length handles \<Longrightarrow>
     extends mp (matched_places m)
     \<and> children_matched graph places (matched_places m) es handles
     \<and> binds places (matched_places m) (concat (map places_of es))"
proof (induction graph places e node mp and graph places e enodes mp and graph places es handles mp
    arbitrary: m and m and m rule: match_simple_match_eclass_match_children.induct)
  case (1 graph places a node mp)
  then show ?case using match_atom_sound[of m graph places a node mp] by simp
next
  case (2 graph places node mp)
  then show ?case by simp
next
  case (3 graph places front pattern_children node mp)
  let ?heads = "match_simple graph places front node mp"
  show ?case
  proof (cases "pattern_children = []")
    case True
    with "3.prems" have "m \<in> set (fst ?heads)" by simp
    from "3.IH"(1)[OF this "3.prems"(2)] True show ?thesis by simp
  next
    case False
    from "3.prems"(1) False have ne: "fst ?heads \<noteq> []"
      by (auto simp: Let_def split: if_splits)
    from "3.prems"(1) False ne have len: "length pattern_children = length (node_children graph node)"
      by (auto simp: Let_def nothing_def split: if_splits)
    from "3.prems"(1) False ne len
    have "m \<in> set (fst (for_gen ?heads (\<lambda>head.
                for_gen (match_children graph places pattern_children (node_children graph node)
                           (matched_places head))
                  (\<lambda>m. co_yield \<lparr>root = root head, matched_places = matched_places m\<rparr>))))"
      by (simp add: Let_def)
    then obtain head m' where
      head: "head \<in> set (fst ?heads)"
      and m': "m' \<in> set (fst (match_children graph places pattern_children
                 (node_children graph node) (matched_places head)))"
      and m: "m = \<lparr>root = root head, matched_places = matched_places m'\<rparr>"
      by (auto simp: co_yield_def dest!: in_for_gen)
    note h = "3.IH"(1)[OF head "3.prems"(2)]
    have len': "\<not> length pattern_children \<noteq> length (node_children graph node)" using len by simp
    note c = "3.IH"(2)[OF refl False ne len' head m' "3.prems"(2) len]
    have "extends mp (matched_places m')"
      using h c by (blast intro: extends_trans)
    moreover have "matches_at graph places (matched_places m') front node"
      using h c by (blast intro: matches_at_extends(1))
    moreover have "binds places (matched_places m') (places_of front)"
      using h c by (blast intro: binds_extends)
    ultimately show ?thesis using h c m False by (simp add: binds_append)
  qed
next
  case (4 graph places expr mp)
  then show ?case by (simp add: nothing_def)
next
  case (5 graph places expr node rest mp)
  from "5.prems"(1) consider "m \<in> set (fst (match_simple graph places expr node mp))"
    | "m \<in> set (fst (match_eclass graph places expr rest mp))"
    by (auto dest: in_and_then)
  then show ?case
  proof cases
    case 1
    from "5.IH"(1)[OF this "5.prems"(2)] show ?thesis by simp
  next
    case 2
    from "5.IH"(2)[OF this "5.prems"(2)] show ?thesis by simp
  qed
next
  case (6 graph places handles mp)
  then show ?case by simp
next
  case (7 graph places front rest mp)
  then show ?case by simp
next
  case (8 graph places front rest child handles mp)
  let ?match_child = "match_eclass graph places front (eclass_nodes graph child) mp"
  show ?case
  proof (cases "rest = []")
    case True
    with "8.prems" have "m \<in> set (fst ?match_child)" by simp
    from "8.IH"(1)[OF this "8.prems"(2)] True "8.prems"(3) show ?thesis by simp
  next
    case False
    with "8.prems"(1) obtain m1 where
      m1: "m1 \<in> set (fst ?match_child)"
      and m: "m \<in> set (fst (match_children graph places rest handles (matched_places m1)))"
      by (auto simp: Let_def dest!: in_for_gen)
    note a = "8.IH"(1)[OF m1 "8.prems"(2)]
    from "8.prems"(3) have len: "length rest = length handles" by simp
    note b = "8.IH"(2)[OF refl False m1 m "8.prems"(2) len]
    have "extends mp (matched_places m)"
      using a b by (blast intro: extends_trans)
    moreover have "list_ex (matches_at graph places (matched_places m) front) (eclass_nodes graph child)"
      using a b by (auto simp: list_ex_iff intro: matches_at_extends(1))
    moreover have "binds places (matched_places m) (places_of front)"
      using a b by (blast intro: binds_extends)
    ultimately show ?thesis using b by (simp add: binds_append)
  qed
qed

lemma in_match_pattern_eclass:
  "m \<in> set (fst (match_pattern_eclass graph places pattern enodes)) \<Longrightarrow>
   \<exists>node \<in> set enodes. m \<in> set (fst (match_by_action graph places pattern node))"
  by (induction enodes) (auto simp: nothing_def dest: in_and_then)

lemma in_match_eclasses:
  "m \<in> set (fst (match_eclasses graph places pattern classes)) \<Longrightarrow>
   length (matched_places m) = length places \<and>
   (\<exists>eclass \<in> set classes. m \<in> set (fst (match_pattern_eclass graph places pattern eclass)))"
proof (induction classes)
  case Nil
  then show ?case by (simp add: nothing_def)
next
  case (Cons eclass rest)
  from Cons.prems consider
    "m \<in> set (fst (for_gen (match_pattern_eclass graph places pattern eclass)
          (\<lambda>m. if length (matched_places m) = length places then co_yield m else nothing)))"
    | "m \<in> set (fst (match_eclasses graph places pattern rest))"
    by (auto dest: in_and_then)
  then show ?case
  proof cases
    case 1
    then show ?thesis
      by (auto simp: co_yield_def nothing_def dest!: in_for_gen split: if_splits)
  next
    case 2
    with Cons.IH show ?thesis by auto
  qed
qed

text \<open>
  C6: every result of the top-level \<open>match(pattern, graph)\<close> binds every place that the
  pattern declares, has as many bindings as the pattern has places, and is consistent:
  the pattern is matched, under the bindings of the result, at a node of the graph whose
  class is the root of the result, so every occurrence of a place met a node of the one
  class the place is bound to.
\<close>

theorem C6_match_results:
  assumes "m \<in> set (fst (match_graph pattern graph))"
    and "length (gather_places pattern) < 2 ^ 32"
  shows "length (matched_places m) = length (gather_places pattern)
     \<and> (\<forall>p \<in> set (gather_places pattern).
           \<exists>h. map_of (matched_places m) (place_index p (gather_places pattern)) = Some h)
     \<and> (\<exists>e eclass node. action pattern = simple e \<and> eclass \<in> set (eclasses graph)
           \<and> node \<in> set eclass \<and> root m = find_node graph node
           \<and> matches_at graph (gather_places pattern) (matched_places m) e node)"
proof -
  let ?places = "gather_places pattern"
  from assms(1) have "m \<in> set (fst (match_eclasses graph ?places pattern (eclasses graph)))"
    by (simp add: match_graph_def)
  from in_match_eclasses[OF this] obtain eclass where
    len: "length (matched_places m) = length ?places"
    and eclass: "eclass \<in> set (eclasses graph)"
    and m1: "m \<in> set (fst (match_pattern_eclass graph ?places pattern eclass))"
    by auto
  from in_match_pattern_eclass[OF m1] obtain node where
    node: "node \<in> set eclass"
    and m2: "m \<in> set (fst (match_by_action graph ?places pattern node))"
    by auto
  from m2 obtain e where
    e: "action pattern = simple e"
    and m3: "m \<in> set (fst (match_simple graph ?places e node []))"
    by (cases "action pattern") (auto simp: match_by_action_def abort_def)
  note s = match_sound(1)[OF m3 assms(2)]
  have "set ?places = set (places_of e)"
    using e by (simp add: gather_places_def)
  with s have "\<forall>p \<in> set ?places. \<exists>h. map_of (matched_places m) (place_index p ?places) = Some h"
    by (simp add: binds_def)
  with len s e eclass node show ?thesis by blast
qed

theorem C6_match_results_witness:
  "match_graph \<lparr>action = simple add_a_a\<rparr> four_nodes = ([\<lparr>root = 2, matched_places = [(0, 0)]\<rparr>], None)
   \<and> gather_places \<lparr>action = simple add_a_a\<rparr> = [''a'']
   \<and> map_of [(0, 0)] (place_index ''a'' [''a'']) = Some 0
   \<and> matches_at four_nodes [''a''] [(0, 0)] add_a_a 2
   \<and> \<not> matches_at four_nodes [''a''] [(0, 0)] add_a_a 3"
proof -
  have g: "match_graph \<lparr>action = simple add_a_a\<rparr> four_nodes
           = ([\<lparr>root = 2, matched_places = [(0, 0)]\<rparr>], None)"
    by (simp add: match_graph_def gather_places_def add_a_a_def four_nodes_def match_by_action_def
        match_atom_def place_index_def emplace_def for_gen_def and_then_def co_yield_def nothing_def
        Let_def)
  have p: "gather_places \<lparr>action = simple add_a_a\<rparr> = [''a'']"
    by (simp add: gather_places_def add_a_a_def)
  have "\<lparr>root = 2, matched_places = [(0, 0)]\<rparr> \<in> set (fst (match_graph \<lparr>action = simple add_a_a\<rparr> four_nodes))"
    by (simp add: g)
  from C6_match_results[OF this] g p show ?thesis
    by (simp add: add_a_a_def four_nodes_def place_index_def)
qed

end
